theory Spec2Isabelle
  imports Main
begin

section \<open>Parsed descriptors\<close>

text \<open>
  The build step works on what \<^verbatim>\<open>json.load\<close> returns: nested Python dicts, lists, strings,
  numbers, booleans and None. A dict keeps its insertion order, which the code observes
  (iteration order decides which error is raised first and in which order resources are
  renamed), so a dict is an association list of its items, in order. The loader never
  produces a dict with a repeated key; \<open>wf_json\<close> states that. Numbers are integers:
  no claim is about a fractional number. The values are trees: the loader shares no
  sub-object between two places.
\<close>

datatype json =
    JNull
  | JBool bool
  | JNum int
  | JStr string
  | JList "json list"
  | JObj "(string \<times> json) list"

type_synonym manifest = "(string \<times> json) list"

text \<open>
  Every fatal condition of the module is a Python exception. The four collision errors,
  the missing-field error and the unresolved-dependency error are all raised as
  \<^verbatim>\<open>AssertionError\<close> and differ in their message; each gets a constructor that carries
  what the message is formatted from. So does the assertion for a shared descriptor
  without a \<^verbatim>\<open>resource_type\<close> (\<open>NoResourceType\<close>) and the \<^verbatim>\<open>KeyError\<close> raised for a type
  that is not in \<^verbatim>\<open>RESOURCE_LIST\<close> (\<open>UnrecognizedResourceType\<close>). \<open>KeyError\<close>,
  \<open>TypeError\<close> and \<open>AttributeError\<close> are the interpreter's own errors on descriptors of
  an unexpected shape. \<open>NotModelled\<close> marks the one input the model does not follow
  (see \<open>store_lambda\<close>).
\<close>

datatype error =
    KeyError string
  | TypeError
  | AttributeError
  | DuplicateSubResource string string
  | DuplicateCacheConfig string
  | DuplicateResource string
  | ConflictingResource string json json
  | MissingField string string json
  | NoResourceType string
  | UnrecognizedResourceType json
  | UnresolvedDependency json
  | NotModelled

subsection \<open>Python's dict and value operations\<close>

text \<open>\<^verbatim>\<open>d[k] = v\<close>: an existing key keeps its place, a new key goes last.\<close>

primrec setitem :: "('k \<times> 'v) list \<Rightarrow> 'k \<Rightarrow> 'v \<Rightarrow> ('k \<times> 'v) list" where
  "setitem [] k v = [(k, v)]"
| "setitem (p # ps) k v = (if fst p = k then (k, v) # ps else p # setitem ps k v)"

text \<open>Removing a key, as \<^verbatim>\<open>d.pop(k)\<close> does once the key is known to be there.\<close>

definition delitem :: "('k \<times> 'v) list \<Rightarrow> 'k \<Rightarrow> ('k \<times> 'v) list" where
  "delitem d k = filter (\<lambda>p. fst p \<noteq> k) d"

text \<open>\<^verbatim>\<open>d.update(e)\<close>: the items of \<open>e\<close> are stored one by one, in order.\<close>

primrec update_dict :: "('k \<times> 'v) list \<Rightarrow> ('k \<times> 'v) list \<Rightarrow> ('k \<times> 'v) list" where
  "update_dict d [] = d"
| "update_dict d (p # ps) = update_dict (setitem d (fst p) (snd p)) ps"

text \<open>\<^verbatim>\<open>v[k]\<close> with a string key: only a dict can be subscripted that way.\<close>

fun getitem :: "json \<Rightarrow> string \<Rightarrow> error + json" where
  "getitem (JObj d) k = (case map_of d k of None \<Rightarrow> Inl (KeyError k) | Some v \<Rightarrow> Inr v)"
| "getitem _ k = Inl TypeError"

text \<open>\<^verbatim>\<open>d.get(k)\<close> on a dict: None when the key is absent.\<close>

definition get :: "(string \<times> json) list \<Rightarrow> string \<Rightarrow> json" where
  "get d k = (case map_of d k of None \<Rightarrow> JNull | Some v \<Rightarrow> v)"

text \<open>\<^verbatim>\<open>d.get(k, default)\<close>.\<close>

definition get_default :: "(string \<times> json) list \<Rightarrow> string \<Rightarrow> json \<Rightarrow> json" where
  "get_default d k dflt = (case map_of d k of None \<Rightarrow> dflt | Some v \<Rightarrow> v)"

text \<open>Truth value of an object in \<^verbatim>\<open>if x:\<close>.\<close>

fun truthy :: "json \<Rightarrow> bool" where
  "truthy JNull = False"
| "truthy (JBool b) = b"
| "truthy (JNum n) = (n \<noteq> 0)"
| "truthy (JStr s) = (s \<noteq> [])"
| "truthy (JList xs) = (xs \<noteq> [])"
| "truthy (JObj d) = (d \<noteq> [])"

text \<open>What a \<^verbatim>\<open>for\<close> loop over a value visits: the elements of a list, the keys of a
  dict, the characters of a string; anything else is not iterable.\<close>

fun py_iter :: "json \<Rightarrow> error + json list" where
  "py_iter (JList xs) = Inr xs"
| "py_iter (JObj d) = Inr (map (\<lambda>p. JStr (fst p)) d)"
| "py_iter (JStr s) = Inr (map (\<lambda>c. JStr [c]) s)"
| "py_iter _ = Inl TypeError"

text \<open>Only dicts and lists are unhashable among the loader's values.\<close>

fun hashable :: "json \<Rightarrow> bool" where
  "hashable (JList xs) = False"
| "hashable (JObj d) = False"
| "hashable _ = True"

text \<open>
  Python's \<^verbatim>\<open>==\<close> on loaded values: dicts are equal when they have the same keys with
  equal values, whatever the order of their items; lists are equal element by element;
  \<^verbatim>\<open>True == 1\<close> and \<^verbatim>\<open>False == 0\<close>.
\<close>

fun py_eq :: "json \<Rightarrow> json \<Rightarrow> bool" where
  "py_eq JNull w = (w = JNull)"
| "py_eq (JBool b) w = (w = JBool b \<or> w = JNum (if b then 1 else 0))"
| "py_eq (JNum n) w = (w = JNum n \<or> (n = 1 \<and> w = JBool True) \<or> (n = 0 \<and> w = JBool False))"
| "py_eq (JStr s) w = (w = JStr s)"
| "py_eq (JList xs) w = (case w of JList ys \<Rightarrow> list_all2 py_eq xs ys | _ \<Rightarrow> False)"
| "py_eq (JObj d) w =
     (case w of
        JObj e \<Rightarrow>
          length d = length e \<and>
          list_all (\<lambda>(k, v). case map_of e k of None \<Rightarrow> False | Some v' \<Rightarrow> py_eq v v') d
      | _ \<Rightarrow> False)"

text \<open>What the loader produces: no dict repeats a key, at any depth.\<close>

fun wf_json :: "json \<Rightarrow> bool" where
  "wf_json (JList xs) = list_all wf_json xs"
| "wf_json (JObj d) = (distinct (map fst d) \<and> list_all (\<lambda>(k, v). wf_json v) d)"
| "wf_json _ = True"

text \<open>\<^verbatim>\<open>x in xs\<close> for a list and for the keys of a dict compares with \<^verbatim>\<open>==\<close>.\<close>

definition py_in :: "json \<Rightarrow> json list \<Rightarrow> bool" where
  "py_in x xs = list_ex (py_eq x) xs"

text \<open>\<^verbatim>\<open>a + b\<close>: lists and strings are concatenated, numbers (and booleans) added.\<close>

fun num_of :: "json \<Rightarrow> int option" where
  "num_of (JNum n) = Some n"
| "num_of (JBool b) = Some (if b then 1 else 0)"
| "num_of _ = None"

fun py_add :: "json \<Rightarrow> json \<Rightarrow> error + json" where
  "py_add (JList xs) (JList ys) = Inr (JList (xs @ ys))"
| "py_add (JStr s) (JStr t) = Inr (JStr (s @ t))"
| "py_add a b =
     (case (num_of a, num_of b) of
        (Some m, Some n) \<Rightarrow> Inr (JNum (m + n))
      | _ \<Rightarrow> Inl TypeError)"

subsection \<open>Python's string operations\<close>

definition startswith :: "string \<Rightarrow> string \<Rightarrow> bool" where
  "startswith s p = (take (length p) s = p)"

text \<open>\<^verbatim>\<open>sub in s\<close> for two strings: \<open>sub\<close> occurs in \<open>s\<close> as a contiguous piece.\<close>

fun contains :: "string \<Rightarrow> string \<Rightarrow> bool" where
  "contains [] sub = (sub = [])"
| "contains (c # cs) sub = (startswith (c # cs) sub \<or> contains cs sub)"

text \<open>\<^verbatim>\<open>s.replace(old, new)\<close>: every occurrence, left to right, without overlap; an empty
  \<open>old\<close> matches before every character and at the end.\<close>

function str_replace :: "string \<Rightarrow> string \<Rightarrow> string \<Rightarrow> string" where
  "str_replace [] old new = (if old = [] then new else [])"
| "str_replace (c # cs) old new =
     (if old = [] then new @ c # str_replace cs old new
      else if startswith (c # cs) old
        then new @ str_replace (drop (length old) (c # cs)) old new
      else c # str_replace cs old new)"
  by pat_completeness auto
termination
  by (relation "measure (\<lambda>(s, old, new). length s)") auto

text \<open>\<^verbatim>\<open>s.lower()\<close> on the ASCII letters, which is all a runtime name is compared on.\<close>

definition lower_char :: "char \<Rightarrow> char" where
  "lower_char c =
     (case map_of (zip ''ABCDEFGHIJKLMNOPQRSTUVWXYZ'' ''abcdefghijklmnopqrstuvwxyz'') c of
        None \<Rightarrow> c
      | Some l \<Rightarrow> l)"

definition lower :: "string \<Rightarrow> string" where
  "lower s = map lower_char s"

section \<open>Constants and collaborators that live in other modules\<close>

text \<open>
  The module imports its resource-type tags, the name of the derived attribute and the
  two tables of types from \<^verbatim>\<open>syndicate.core.constants\<close>, \<^verbatim>\<open>syndicate.core\<close> and
  \<^verbatim>\<open>syndicate.core.conf.config_holder\<close>. Their values are not part of this module, so
  every function takes them as a parameter and every theorem holds for all of them.
  Membership in the two tables is decided for a string type; a type that is not a
  string is in neither.
\<close>

record constants =
  API_GATEWAY_TYPE :: string
  LAMBDA_TYPE :: string
  EBS_TYPE :: string
  S3_PATH_NAME :: string
  RESOURCE_LIST :: "string list"
  GLOBAL_AWS_SERVICES :: "string list"

text \<open>
  Modelled from the spec: \<^verbatim>\<open>build_path\<close> of \<^verbatim>\<open>syndicate.core.helper\<close> is not in the sources.
  The spec's rule table gives the derived value as \<^verbatim>\<open>{bundle_name}/{deployment_package}\<close>:
  the two parts joined by a slash. The table speaks of string attributes only; a part
  that is not a string is rejected here.
\<close>

fun build_path :: "string \<Rightarrow> json \<Rightarrow> error + json" where
  "build_path bundle_name (JStr p) = Inr (JStr (bundle_name @ ''/'' @ p))"
| "build_path bundle_name _ = Inl TypeError"

text \<open>
  Modelled from the spec: \<^verbatim>\<open>build_py_package_name\<close> of \<^verbatim>\<open>syndicate.core.build.helper\<close> is
  not in the sources. The spec's example packages name \<^verbatim>\<open>svc\<close>, version \<^verbatim>\<open>1.0\<close> as
  \<^verbatim>\<open>svc-1.0.zip\<close>. As for \<open>build_path\<close>, only strings are given a value.
\<close>

fun build_py_package_name :: "json \<Rightarrow> json \<Rightarrow> error + json" where
  "build_py_package_name (JStr name) (JStr version) = Inr (JStr (name @ ''-'' @ version @ ''.zip''))"
| "build_py_package_name _ _ = Inl TypeError"

section \<open>The derived storage location\<close>

text \<open>
  Each \<^verbatim>\<open>_populate_s3_path_*\<close> function either raises or stores the derived attribute
  in \<open>meta\<close>; the model returns the error or the updated dict. The error carries the
  kind of config the message names, the field it asks for and the offending entry.
\<close>

definition populate_s3_path_python ::
  "constants \<Rightarrow> (string \<times> json) list \<Rightarrow> string \<Rightarrow> error + (string \<times> json) list" where
  "populate_s3_path_python c meta bundle_name =
     (let name = get meta ''name''; version = get meta ''version'' in
      if \<not> truthy name \<or> \<not> truthy version
      then Inl (MissingField ''Lambda'' ''name and version'' (JObj meta))
      else
        (case build_py_package_name name version of
           Inl e \<Rightarrow> Inl e
         | Inr package \<Rightarrow>
             (case build_path bundle_name package of
                Inl e \<Rightarrow> Inl e
              | Inr path \<Rightarrow> Inr (setitem meta (S3_PATH_NAME c) path))))"

definition populate_s3_path_java ::
  "constants \<Rightarrow> (string \<times> json) list \<Rightarrow> string \<Rightarrow> error + (string \<times> json) list" where
  "populate_s3_path_java c meta bundle_name =
     (let deployment_package = get meta ''deployment_package'' in
      if \<not> truthy deployment_package
      then Inl (MissingField ''Lambda'' ''deployment_package'' (JObj meta))
      else
        (case build_path bundle_name deployment_package of
           Inl e \<Rightarrow> Inl e
         | Inr path \<Rightarrow> Inr (setitem meta (S3_PATH_NAME c) path)))"

text \<open>\<^verbatim>\<open>RUNTIME_PATH_RESOLVER.get(runtime.lower())\<close>; an unknown runtime raises with the
  same message as a missing one. \<^verbatim>\<open>.lower()\<close> exists on strings only.\<close>

definition populate_s3_path_lambda ::
  "constants \<Rightarrow> (string \<times> json) list \<Rightarrow> string \<Rightarrow> error + (string \<times> json) list" where
  "populate_s3_path_lambda c meta bundle_name =
     (let runtime = get meta ''runtime'' in
      if \<not> truthy runtime
      then Inl (MissingField ''Lambda'' ''runtime'' (JObj meta))
      else
        (case runtime of
           JStr r \<Rightarrow>
             if lower r = ''python2.7'' then populate_s3_path_python c meta bundle_name
             else if lower r = ''java8'' then populate_s3_path_java c meta bundle_name
             else Inl (MissingField ''Lambda'' ''runtime'' (JObj meta))
         | _ \<Rightarrow> Inl AttributeError))"

definition populate_s3_path_ebs ::
  "constants \<Rightarrow> (string \<times> json) list \<Rightarrow> string \<Rightarrow> error + (string \<times> json) list" where
  "populate_s3_path_ebs c meta bundle_name =
     (let deployment_package = get meta ''deployment_package'' in
      if \<not> truthy deployment_package
      then Inl (MissingField ''Beanstalk_app'' ''deployment_package'' (JObj meta))
      else
        (case build_path bundle_name deployment_package of
           Inl e \<Rightarrow> Inl e
         | Inr path \<Rightarrow> Inr (setitem meta (S3_PATH_NAME c) path)))"

text \<open>\<^verbatim>\<open>S3_PATH_MAPPING.get(resource_type)\<close>: the table is a dict literal with the keys
  \<^verbatim>\<open>LAMBDA_TYPE\<close> and \<^verbatim>\<open>EBS_TYPE\<close>, in that order, so the second entry would win if both
  tags were the same string. Looking up an unhashable type raises.\<close>

definition populate_s3_path ::
  "constants \<Rightarrow> (string \<times> json) list \<Rightarrow> string \<Rightarrow> error + (string \<times> json) list" where
  "populate_s3_path c meta bundle_name =
     (let resource_type = get meta ''resource_type'' in
      if \<not> hashable resource_type then Inl TypeError
      else if resource_type = JStr (EBS_TYPE c) then populate_s3_path_ebs c meta bundle_name
      else if resource_type = JStr (LAMBDA_TYPE c) then populate_s3_path_lambda c meta bundle_name
      else Inr meta)"

section \<open>The collision handler\<close>

text \<open>
  \<^verbatim>\<open>_check_duplicated_resources(initial_meta_dict, additional_item_name, additional_item)\<close>
  reads the manifest and the existing entry and, when it merges two API descriptions,
  mutates the incoming entry and returns it. The model returns the error, \<open>None\<close>
  where the source returns None, or the incoming entry as the source leaves it. The
  statements of the merge are modelled one by one, in the source's order, since each
  can raise on a descriptor of an unexpected shape.
\<close>

text \<open>The loop over \<^verbatim>\<open>initial_item['resources'].keys()\<close>; the incoming entry's
  \<^verbatim>\<open>resources\<close> are looked up inside the loop, so only when the loop runs at all.\<close>

fun duplicated_sub_resource ::
  "string \<Rightarrow> (string \<times> json) list \<Rightarrow> string list \<Rightarrow> error option" where
  "duplicated_sub_resource additional_item_name additional_item [] = None"
| "duplicated_sub_resource additional_item_name additional_item (each # rest) =
     (case getitem (JObj additional_item) ''resources'' of
        Inl e \<Rightarrow> Some e
      | Inr (JObj r) \<Rightarrow>
          if each \<in> set (map fst r)
          then Some (DuplicateSubResource additional_item_name each)
          else duplicated_sub_resource additional_item_name additional_item rest
      | Inr _ \<Rightarrow> Some AttributeError)"

text \<open>The keys of \<^verbatim>\<open>dependencies_dict\<close>: \<^verbatim>\<open>each['resource_name']\<close> of every incoming
  dependency, which must be hashable to be a key.\<close>

fun dependency_names :: "json list \<Rightarrow> error + json list" where
  "dependency_names [] = Inr []"
| "dependency_names (each # rest) =
     (case getitem each ''resource_name'' of
        Inl e \<Rightarrow> Inl e
      | Inr n \<Rightarrow>
          if \<not> hashable n then Inl TypeError
          else
            (case dependency_names rest of
               Inl e \<Rightarrow> Inl e
             | Inr ns \<Rightarrow> Inr (n # ns)))"

text \<open>The loop over \<^verbatim>\<open>initial_item['dependencies']\<close>: a dependency whose name is not a
  key of \<^verbatim>\<open>dependencies_dict\<close> is appended to the incoming entry's list. The dict is
  built before the loop and not updated in it.\<close>

fun append_missing :: "json list \<Rightarrow> json list \<Rightarrow> json \<Rightarrow> error + json" where
  "append_missing names [] deps = Inr deps"
| "append_missing names (each # rest) deps =
     (case getitem each ''resource_name'' of
        Inl e \<Rightarrow> Inl e
      | Inr n \<Rightarrow>
          if \<not> hashable n then Inl TypeError
          else if py_in n names then append_missing names rest deps
          else
            (case deps of
               JList ds \<Rightarrow> append_missing names rest (JList (ds @ [each]))
             | _ \<Rightarrow> Inl AttributeError))"

definition join_dependencies ::
  "(string \<times> json) list \<Rightarrow> (string \<times> json) list \<Rightarrow> error + (string \<times> json) list" where
  "join_dependencies initial_item additional_item =
     (case getitem (JObj additional_item) ''dependencies'' of
        Inl e \<Rightarrow> Inl e
      | Inr additional_deps \<Rightarrow>
     (case py_iter additional_deps of
        Inl e \<Rightarrow> Inl e
      | Inr additional_elems \<Rightarrow>
     (case dependency_names additional_elems of
        Inl e \<Rightarrow> Inl e
      | Inr names \<Rightarrow>
     (case getitem (JObj initial_item) ''dependencies'' of
        Inl e \<Rightarrow> Inl e
      | Inr initial_deps \<Rightarrow>
     (case py_iter initial_deps of
        Inl e \<Rightarrow> Inl e
      | Inr initial_elems \<Rightarrow>
     (case append_missing names initial_elems additional_deps of
        Inl e \<Rightarrow> Inl e
      | Inr deps \<Rightarrow> Inr (setitem additional_item ''dependencies'' deps)))))))"

text \<open>\<^verbatim>\<open>additional_item['resources'].update(initial_item['resources'])\<close>.\<close>

definition join_resources ::
  "(string \<times> json) list \<Rightarrow> (string \<times> json) list \<Rightarrow> error + (string \<times> json) list" where
  "join_resources initial_resources additional_item =
     (case getitem (JObj additional_item) ''resources'' of
        Inl e \<Rightarrow> Inl e
      | Inr (JObj r) \<Rightarrow>
          Inr (setitem additional_item ''resources'' (JObj (update_dict r initial_resources)))
      | Inr _ \<Rightarrow> Inl AttributeError)"

text \<open>The last five statements of the merge: \<^verbatim>\<open>deploy_stage\<close> and \<^verbatim>\<open>apply_changes\<close>.\<close>

definition join_stage_and_changes ::
  "(string \<times> json) list \<Rightarrow> (string \<times> json) list \<Rightarrow> error + (string \<times> json) list" where
  "join_stage_and_changes initial_item additional_item =
     (let init_deploy_stage = get initial_item ''deploy_stage'';
          item = (if truthy init_deploy_stage
                  then setitem additional_item ''deploy_stage'' init_deploy_stage
                  else additional_item);
          init_apply = get_default initial_item ''apply_changes'' (JList []);
          add_apply = get_default item ''apply_changes'' (JList [])
      in case py_add init_apply add_apply of
           Inl e \<Rightarrow> Inl e
         | Inr apply \<Rightarrow> Inr (setitem item ''apply_changes'' apply))"

text \<open>The branch for two API descriptions (the source's lines 76 to 113).\<close>

definition join_api ::
  "string \<Rightarrow> (string \<times> json) list \<Rightarrow> (string \<times> json) list \<Rightarrow> error + json option" where
  "join_api additional_item_name initial_item additional_item =
     (case getitem (JObj initial_item) ''resources'' of
        Inl e \<Rightarrow> Inl e
      | Inr (JObj initial_resources) \<Rightarrow>
          (case duplicated_sub_resource additional_item_name additional_item
                  (map fst initial_resources) of
             Some e \<Rightarrow> Inl e
           | None \<Rightarrow>
               (let initial_cache_config = get initial_item ''cluster_cache_configuration'';
                    additional_cache_config = get additional_item ''cluster_cache_configuration''
                in if truthy initial_cache_config \<and> truthy additional_cache_config
                   then Inl (DuplicateCacheConfig additional_item_name)
                   else
                     (case join_dependencies initial_item
                             (if truthy initial_cache_config
                              then setitem additional_item ''cluster_cache_configuration''
                                     initial_cache_config
                              else additional_item) of
                        Inl e \<Rightarrow> Inl e
                      | Inr item \<Rightarrow>
                     (case join_resources initial_resources item of
                        Inl e \<Rightarrow> Inl e
                      | Inr item' \<Rightarrow>
                     (case join_stage_and_changes initial_item item' of
                        Inl e \<Rightarrow> Inl e
                      | Inr item'' \<Rightarrow> Inr (Some (JObj item'')))))))
      | Inr _ \<Rightarrow> Inl AttributeError)"

definition check_duplicated_resources ::
  "constants \<Rightarrow> manifest \<Rightarrow> string \<Rightarrow> (string \<times> json) list \<Rightarrow> error + json option" where
  "check_duplicated_resources c initial_meta_dict additional_item_name additional_item =
     (case map_of initial_meta_dict additional_item_name of
        None \<Rightarrow> Inr None
      | Some initial_item \<Rightarrow>
          (case getitem (JObj additional_item) ''resource_type'' of
             Inl e \<Rightarrow> Inl e
           | Inr additional_type \<Rightarrow>
               if \<not> truthy initial_item then Inr None
               else
                 (case getitem initial_item ''resource_type'' of
                    Inl e \<Rightarrow> Inl e
                  | Inr initial_type \<Rightarrow>
                      if py_eq additional_type initial_type \<and>
                         py_eq initial_type (JStr (API_GATEWAY_TYPE c))
                      then
                        (case initial_item of
                           JObj i \<Rightarrow> join_api additional_item_name i additional_item
                         | _ \<Rightarrow> Inl TypeError)
                      else if py_eq additional_type initial_type
                      then
                        (if py_eq (JObj additional_item) initial_item
                         then Inl (DuplicateResource additional_item_name)
                         else Inl (ConflictingResource additional_item_name initial_item
                                     (JObj additional_item)))
                      else Inr None)))"

section \<open>Scanning the project\<close>

text \<open>
  \<^verbatim>\<open>_look_for_configs\<close> reads the files of one directory. Reading and parsing are the
  loader's work, so the model is given each file as parsed: a unit descriptor (a file
  whose name ends with \<^verbatim>\<open>LAMBDA_CONFIG_FILE_NAME\<close>), a shared descriptor file (the file
  named \<^verbatim>\<open>RESOURCES_FILE_NAME\<close>, a JSON object from resource names to descriptors), or a
  file the function skips.

  The function mutates \<^verbatim>\<open>resources_meta\<close> and can raise half way. The model threads the
  manifest and returns it with the exception, if any: \<open>(Some e, m)\<close> says that \<open>e\<close> was
  raised when the manifest was \<open>m\<close>.
\<close>

datatype config_file =
    LambdaConfig json
  | DeploymentResources "(string \<times> json) list"
  | OtherFile

text \<open>
  The four statements both branches end with: populate the derived attribute, check
  for a collision, take the merged entry if there is one, store the entry under its
  name. A merged entry is the incoming entry itself, mutated, so it is what gets stored.
\<close>

definition store_resource ::
  "constants \<Rightarrow> string \<Rightarrow> manifest \<Rightarrow> string \<Rightarrow> (string \<times> json) list \<Rightarrow> error option \<times> manifest" where
  "store_resource c bundle_name resources_meta resource_name resource =
     (case populate_s3_path c resource bundle_name of
        Inl e \<Rightarrow> (Some e, resources_meta)
      | Inr resource' \<Rightarrow>
          (case check_duplicated_resources c resources_meta resource_name resource' of
             Inl e \<Rightarrow> (Some e, resources_meta)
           | Inr None \<Rightarrow> (None, setitem resources_meta resource_name (JObj resource'))
           | Inr (Some res) \<Rightarrow> (None, setitem resources_meta resource_name res)))"

text \<open>The first branch. A manifest is keyed by strings here; a unit descriptor whose
  \<^verbatim>\<open>name\<close> is not a string is outside the model (\<open>NotModelled\<close>).\<close>

definition store_lambda ::
  "constants \<Rightarrow> string \<Rightarrow> manifest \<Rightarrow> json \<Rightarrow> error option \<times> manifest" where
  "store_lambda c bundle_name resources_meta lambda_conf =
     (case getitem lambda_conf ''name'' of
        Inl e \<Rightarrow> (Some e, resources_meta)
      | Inr (JStr lambda_name) \<Rightarrow>
          (case lambda_conf of
             JObj conf \<Rightarrow> store_resource c bundle_name resources_meta lambda_name conf
           | _ \<Rightarrow> (Some TypeError, resources_meta))
      | Inr _ \<Rightarrow> (Some NotModelled, resources_meta))"

text \<open>The loop of the second branch over the resources of a shared file. Only the
  \<^verbatim>\<open>KeyError\<close> of \<^verbatim>\<open>resource['resource_type']\<close> is caught and turned into an assertion.\<close>

fun store_deployment_resources ::
  "constants \<Rightarrow> string \<Rightarrow> manifest \<Rightarrow> (string \<times> json) list \<Rightarrow> error option \<times> manifest" where
  "store_deployment_resources c bundle_name resources_meta [] = (None, resources_meta)"
| "store_deployment_resources c bundle_name resources_meta ((resource_name, resource) # rest) =
     (case resource of
        JObj r \<Rightarrow>
          (case map_of r ''resource_type'' of
             None \<Rightarrow> (Some (NoResourceType resource_name), resources_meta)
           | Some resource_type \<Rightarrow>
               if resource_type \<notin> JStr ` set (RESOURCE_LIST c)
               then (Some (UnrecognizedResourceType resource_type), resources_meta)
               else
                 (case store_resource c bundle_name resources_meta resource_name r of
                    (Some e, m) \<Rightarrow> (Some e, m)
                  | (None, m) \<Rightarrow> store_deployment_resources c bundle_name m rest))
      | _ \<Rightarrow> (Some TypeError, resources_meta))"

fun look_for_configs ::
  "constants \<Rightarrow> config_file list \<Rightarrow> manifest \<Rightarrow> string \<Rightarrow> error option \<times> manifest" where
  "look_for_configs c [] resources_meta bundle_name = (None, resources_meta)"
| "look_for_configs c (each # nested_files) resources_meta bundle_name =
     (case (case each of
              LambdaConfig lambda_conf \<Rightarrow> store_lambda c bundle_name resources_meta lambda_conf
            | DeploymentResources deployment_resources \<Rightarrow>
                store_deployment_resources c bundle_name resources_meta deployment_resources
            | OtherFile \<Rightarrow> (None, resources_meta)) of
        (Some e, m) \<Rightarrow> (Some e, m)
      | (None, m) \<Rightarrow> look_for_configs c nested_files m bundle_name)"

text \<open>The walk over the project tree: one call per directory, on the same manifest.\<close>

fun walk_project ::
  "constants \<Rightarrow> config_file list list \<Rightarrow> manifest \<Rightarrow> string \<Rightarrow> error option \<times> manifest" where
  "walk_project c [] resources_meta bundle_name = (None, resources_meta)"
| "walk_project c (nested_items # dirs) resources_meta bundle_name =
     (case look_for_configs c nested_items resources_meta bundle_name of
        (Some e, m) \<Rightarrow> (Some e, m)
      | (None, m) \<Rightarrow> walk_project c dirs m bundle_name)"

text \<open>The check that every dependency was described: the inner loop over one entry's
  dependencies, and the outer loop over the manifest.\<close>

fun missing_dependency :: "string list \<Rightarrow> json list \<Rightarrow> error option" where
  "missing_dependency keys [] = None"
| "missing_dependency keys (dependency # rest) =
     (case dependency of
        JObj d \<Rightarrow>
          (let dependency_name = get d ''resource_name'' in
           if \<not> py_in dependency_name (map JStr keys)
           then Some (UnresolvedDependency dependency_name)
           else missing_dependency keys rest)
      | _ \<Rightarrow> Some AttributeError)"

fun check_dependencies :: "string list \<Rightarrow> manifest \<Rightarrow> error option" where
  "check_dependencies keys [] = None"
| "check_dependencies keys ((resource_name, meta) # rest) =
     (case meta of
        JObj m \<Rightarrow>
          (let dependencies = get m ''dependencies'' in
           if truthy dependencies
           then
             (case py_iter dependencies of
                Inl e \<Rightarrow> Some e
              | Inr ds \<Rightarrow>
                  (case missing_dependency keys ds of
                     Some e \<Rightarrow> Some e
                   | None \<Rightarrow> check_dependencies keys rest))
           else check_dependencies keys rest)
      | _ \<Rightarrow> Some AttributeError)"

text \<open>\<^verbatim>\<open>create_resource_json\<close>: the directories are those \<^verbatim>\<open>os.walk\<close> yields, in its order.\<close>

definition create_resource_json :: "constants \<Rightarrow> config_file list list \<Rightarrow> string \<Rightarrow> error + manifest" where
  "create_resource_json c dirs bundle_name =
     (case walk_project c dirs [] bundle_name of
        (Some e, m) \<Rightarrow> Inl e
      | (None, resources_meta) \<Rightarrow>
          (case check_dependencies (map fst resources_meta) resources_meta of
             Some e \<Rightarrow> Inl e
           | None \<Rightarrow> Inr resources_meta))"

section \<open>Rewriting names\<close>

text \<open>
  \<^verbatim>\<open>_resolve_names_in_meta(resources_dict, old_value, new_value)\<close> mutates a nested
  structure in place; the model returns the structure as the call leaves it.

  Its list branch deletes from and appends to the list it is iterating over. A Python
  \<^verbatim>\<open>for\<close> loop over a list keeps a position, reads the element at it, and stops when
  the position reaches the current length; so the loop is modelled on the list and the
  position. \<^verbatim>\<open>resources_dict.index(old_value)\<close> is the position of the first element
  equal to the old name, which exists when it is called: the element at the current
  position is one.
\<close>

fun index :: "'a list \<Rightarrow> 'a \<Rightarrow> nat" where
  "index [] x = 0"
| "index (y # ys) x = (if y = x then 0 else Suc (index ys x))"

lemma index_le: "i < length xs \<Longrightarrow> xs ! i = x \<Longrightarrow> index xs x \<le> i"
proof (induction xs arbitrary: i)
  case Nil
  then show ?case by simp
next
  case (Cons y ys)
  then show ?case by (cases i) auto
qed

function resolve_list ::
  "(json \<Rightarrow> json) \<Rightarrow> string \<Rightarrow> string \<Rightarrow> json list \<Rightarrow> nat \<Rightarrow> json list" where
  "resolve_list f old_value new_value resources_dict i =
     (if i < length resources_dict then
        (case resources_dict ! i of
           JObj d \<Rightarrow>
             resolve_list f old_value new_value (resources_dict[i := f (JObj d)]) (Suc i)
         | JStr item \<Rightarrow>
             if item = old_value then
               (let index = index resources_dict (JStr old_value) in
                resolve_list f old_value new_value
                  (take index resources_dict @ drop (Suc index) resources_dict
                     @ [JStr new_value])
                  (Suc i))
             else resolve_list f old_value new_value resources_dict (Suc i)
         | _ \<Rightarrow> resolve_list f old_value new_value resources_dict (Suc i))
      else resources_dict)"
  by pat_completeness auto
termination
proof (relation "measure (\<lambda>(f, old_value, new_value, resources_dict, i). length resources_dict - i)")
  fix f :: "json \<Rightarrow> json" and old_value new_value :: string and resources_dict :: "json list"
    and i :: nat and item :: string and k :: nat
  assume "i < length resources_dict" "resources_dict ! i = JStr item" "item = old_value"
    "k = index resources_dict (JStr old_value)"
  then have "k \<le> i" by (simp add: index_le)
  with \<open>i < length resources_dict\<close>
  show "((f, old_value, new_value,
          take k resources_dict @ drop (Suc k) resources_dict @ [JStr new_value], Suc i),
         (f, old_value, new_value, resources_dict, i))
        \<in> measure (\<lambda>(f, old_value, new_value, resources_dict, i). length resources_dict - i)"
    by auto
qed auto

text \<open>The loop applies \<open>f\<close> to dicts it reads at or after its position only; this is
  what lets \<open>resolve_names_in_meta\<close> below recurse through it.\<close>

lemma resolve_list_cong [fundef_cong]:
  assumes "xs = ys" "i = j" "old_value = old_value'" "new_value = new_value'"
    and "\<And>d. JObj d \<in> set (drop j ys) \<Longrightarrow> f (JObj d) = g (JObj d)"
  shows "resolve_list f old_value new_value xs i = resolve_list g old_value' new_value' ys j"
proof -
  have "(\<And>d. JObj d \<in> set (drop i xs) \<Longrightarrow> f (JObj d) = g (JObj d)) \<Longrightarrow>
        resolve_list f old_value new_value xs i = resolve_list g old_value new_value xs i"
  proof (induction f old_value new_value xs i rule: resolve_list.induct)
    case (1 f old_value new_value xs i)
    show ?case
    proof (cases "i < length xs")
      case False
      then show ?thesis by simp
    next
      case True
      then have here: "xs ! i \<in> set (drop i xs)"
        by (metis Cons_nth_drop_Suc list.set_intros(1))
      have later: "set (drop (Suc i) ys') \<subseteq> set (drop i xs)"
        if "drop (Suc i) ys' = drop (Suc i) xs" for ys'
        using that set_drop_subset_set_drop[of i "Suc i" xs] by auto
      show ?thesis
      proof (cases "xs ! i")
        case (JObj d)
        have eq: "f (JObj d) = g (JObj d)" using here JObj "1.prems" by simp
        have "resolve_list f old_value new_value (xs[i := f (JObj d)]) (Suc i) =
              resolve_list g old_value new_value (xs[i := f (JObj d)]) (Suc i)"
        proof (rule "1.IH"(7)[OF True JObj])
          fix e assume "JObj e \<in> set (drop (Suc i) (xs[i := f (JObj d)]))"
          then have "JObj e \<in> set (drop i xs)" using later[of "xs[i := f (JObj d)]"] by auto
          then show "f (JObj e) = g (JObj e)" using "1.prems" by simp
        qed
        then show ?thesis using True JObj eq by simp
      next
        case (JStr item)
        show ?thesis
        proof (cases "item = old_value")
          case False
          have "resolve_list f old_value new_value xs (Suc i) =
                resolve_list g old_value new_value xs (Suc i)"
          proof (rule "1.IH"(5)[OF True JStr False])
            fix e assume "JObj e \<in> set (drop (Suc i) xs)"
            then have "JObj e \<in> set (drop i xs)" using later[of xs] by auto
            then show "f (JObj e) = g (JObj e)" using "1.prems" by simp
          qed
          then show ?thesis using True JStr False by simp
        next
          case same: True
          define k where "k = index xs (JStr old_value)"
          define ys' where "ys' = take k xs @ drop (Suc k) xs @ [JStr new_value]"
          have "k \<le> i" using True JStr same by (simp add: k_def index_le)
          then have d: "drop (Suc i) ys' = drop (Suc (Suc i)) xs @ drop (Suc i - (length xs - 1)) [JStr new_value]"
            using True by (auto simp: ys'_def min_def)
          have "resolve_list f old_value new_value ys' (Suc i) =
                resolve_list g old_value new_value ys' (Suc i)"
            unfolding ys'_def
          proof (rule "1.IH"(4)[OF True JStr same k_def])
            fix e assume "JObj e \<in> set (drop (Suc i) (take k xs @ drop (Suc k) xs @ [JStr new_value]))"
            then have "JObj e \<in> set (drop (Suc i) ys')" unfolding ys'_def .
            then have "JObj e \<in> set (drop (Suc (Suc i)) xs @ drop (Suc i - (length xs - 1)) [JStr new_value])"
              unfolding d .
            then have "JObj e \<in> set (drop (Suc (Suc i)) xs) \<or> JObj e \<in> set (drop (Suc i - (length xs - 1)) [JStr new_value])"
              by simp
            moreover have "JObj e \<notin> set (drop (Suc i - (length xs - 1)) [JStr new_value])"
              by (auto dest: in_set_dropD)
            ultimately have "JObj e \<in> set (drop (Suc (Suc i)) xs)" by blast
            then have "JObj e \<in> set (drop i xs)"
              using set_drop_subset_set_drop[of i "Suc (Suc i)" xs] by auto
            then show "f (JObj e) = g (JObj e)" using "1.prems" by simp
          qed
          then show ?thesis using True JStr same by (simp add: Let_def k_def ys'_def)
        qed
      next
        case JNull
        have "resolve_list f old_value new_value xs (Suc i) =
              resolve_list g old_value new_value xs (Suc i)"
        proof (rule "1.IH"(1)[OF True JNull])
          fix e assume "JObj e \<in> set (drop (Suc i) xs)"
          then have "JObj e \<in> set (drop i xs)" using later[of xs] by auto
          then show "f (JObj e) = g (JObj e)" using "1.prems" by simp
        qed
        then show ?thesis using True JNull by simp
      next
        case (JBool b)
        have "resolve_list f old_value new_value xs (Suc i) =
              resolve_list g old_value new_value xs (Suc i)"
        proof (rule "1.IH"(2)[OF True JBool])
          fix e assume "JObj e \<in> set (drop (Suc i) xs)"
          then have "JObj e \<in> set (drop i xs)" using later[of xs] by auto
          then show "f (JObj e) = g (JObj e)" using "1.prems" by simp
        qed
        then show ?thesis using True JBool by simp
      next
        case (JNum n)
        have "resolve_list f old_value new_value xs (Suc i) =
              resolve_list g old_value new_value xs (Suc i)"
        proof (rule "1.IH"(3)[OF True JNum])
          fix e assume "JObj e \<in> set (drop (Suc i) xs)"
          then have "JObj e \<in> set (drop i xs)" using later[of xs] by auto
          then show "f (JObj e) = g (JObj e)" using "1.prems" by simp
        qed
        then show ?thesis using True JNum by simp
      next
        case (JList l)
        have "resolve_list f old_value new_value xs (Suc i) =
              resolve_list g old_value new_value xs (Suc i)"
        proof (rule "1.IH"(6)[OF True JList])
          fix e assume "JObj e \<in> set (drop (Suc i) xs)"
          then have "JObj e \<in> set (drop i xs)" using later[of xs] by auto
          then show "f (JObj e) = g (JObj e)" using "1.prems" by simp
        qed
        then show ?thesis using True JList by simp
      qed
    qed
  qed
  then show ?thesis using assms by simp
qed

text \<open>
  The dict branch assigns to existing keys only, so every value is rewritten on its
  own. A string value equal to the old name is replaced (\<^verbatim>\<open>v.replace\<close> of a string by
  itself gives the new name), a string value that contains the old name and starts with
  \<^verbatim>\<open>arn\<close> has its occurrences replaced, any other value is passed to the recursive
  call, which leaves everything but dicts and lists as it is. The list branch recurses
  into the dicts of the list only.
\<close>

fun resolve_names_in_meta :: "json \<Rightarrow> string \<Rightarrow> string \<Rightarrow> json" where
  "resolve_names_in_meta (JObj resources_dict) old_value new_value =
     JObj (map (\<lambda>(k, v).
                 (k, case v of
                       JStr s \<Rightarrow>
                         if old_value = s then JStr (str_replace s old_value new_value)
                         else if contains s old_value \<and> startswith s ''arn''
                           then JStr (str_replace s old_value new_value)
                         else JStr s
                     | _ \<Rightarrow> resolve_names_in_meta v old_value new_value))
             resources_dict)"
| "resolve_names_in_meta (JList resources_dict) old_value new_value =
     JList (resolve_list (\<lambda>item. resolve_names_in_meta item old_value new_value)
              old_value new_value resources_dict 0)"
| "resolve_names_in_meta v old_value new_value = v"

section \<open>Resolving the manifest\<close>

text \<open>
  \<^verbatim>\<open>resolve_meta\<close> reads the naming rules from the global \<^verbatim>\<open>CONFIG\<close> object and calls
  two helpers of other modules: \<^verbatim>\<open>resolve_aliases_for_string\<close> (\<^verbatim>\<open>syndicate.core.helper\<close>)
  on the prefix and the suffix, and \<^verbatim>\<open>resolve_dynamic_identifier\<close>
  (\<^verbatim>\<open>syndicate.core.resources.helper\<close>) on the whole manifest, once per alias. Neither is in
  the sources; both are parameters here, and the theorems hold whatever they compute.
  A prefix or suffix that is None or empty is not configured.
\<close>

record config =
  resources_prefix :: "string option"
  resources_suffix :: "string option"
  aliases :: "(string \<times> json) list"

record collaborators =
  resolve_aliases_for_string :: "string \<Rightarrow> string"
  resolve_dynamic_identifier :: "string \<Rightarrow> json \<Rightarrow> manifest \<Rightarrow> manifest"

definition resolve_prefix_name :: "collaborators \<Rightarrow> string \<Rightarrow> string option \<Rightarrow> string" where
  "resolve_prefix_name h resource_name resource_prefix =
     (case resource_prefix of
        None \<Rightarrow> resource_name
      | Some p \<Rightarrow>
          if p \<noteq> [] then resolve_aliases_for_string h p @ resource_name else resource_name)"

definition resolve_suffix_name :: "collaborators \<Rightarrow> string \<Rightarrow> string option \<Rightarrow> string" where
  "resolve_suffix_name h resource_name resource_suffix =
     (case resource_suffix of
        None \<Rightarrow> resource_name
      | Some s \<Rightarrow>
          if s \<noteq> [] then resource_name @ resolve_aliases_for_string h s else resource_name)"

definition resolve_resource_name :: "config \<Rightarrow> collaborators \<Rightarrow> string \<Rightarrow> string" where
  "resolve_resource_name cfg h resource_name =
     resolve_suffix_name h
       (resolve_prefix_name h resource_name (resources_prefix cfg)) (resources_suffix cfg)"

text \<open>The first loop of \<^verbatim>\<open>resolve_meta\<close>: one call of \<^verbatim>\<open>resolve_dynamic_identifier\<close> per
  alias, each on the result of the one before.\<close>

fun resolve_aliases :: "collaborators \<Rightarrow> (string \<times> json) list \<Rightarrow> manifest \<Rightarrow> manifest" where
  "resolve_aliases h [] overall_meta = overall_meta"
| "resolve_aliases h ((key, v) # rest) overall_meta =
     resolve_aliases h rest
       (resolve_dynamic_identifier h (''${'' @ key @ ''}'') v overall_meta)"

text \<open>The second loop builds \<^verbatim>\<open>resolved_names\<close>: current name to resolved name, for the
  resources of an eligible type whose name changes. The names are the keys of a dict,
  so the result has one item per name, in the manifest's order.\<close>

fun collect_resolved_names ::
  "constants \<Rightarrow> config \<Rightarrow> collaborators \<Rightarrow> manifest \<Rightarrow> error + (string \<times> string) list" where
  "collect_resolved_names c cfg h [] = Inr []"
| "collect_resolved_names c cfg h ((name, res_meta) # rest) =
     (case getitem res_meta ''resource_type'' of
        Inl e \<Rightarrow> Inl e
      | Inr resource_type \<Rightarrow>
          (case collect_resolved_names c cfg h rest of
             Inl e \<Rightarrow> Inl e
           | Inr resolved_names \<Rightarrow>
               if resource_type \<in> JStr ` set (GLOBAL_AWS_SERVICES c) \<and>
                  name \<noteq> resolve_resource_name cfg h name
               then Inr ((name, resolve_resource_name cfg h name) # resolved_names)
               else Inr resolved_names))"

definition items_of :: "json \<Rightarrow> manifest" where
  "items_of v = (case v of JObj d \<Rightarrow> d | _ \<Rightarrow> [])"

text \<open>The third loop: the entry is popped and stored under the resolved name (which
  replaces the value of an existing key in place, and goes last otherwise), then the
  old name is rewritten in the whole manifest.\<close>

fun rename_resources :: "(string \<times> string) list \<Rightarrow> manifest \<Rightarrow> error + manifest" where
  "rename_resources [] overall_meta = Inr overall_meta"
| "rename_resources ((current_name, resolved_name) # rest) overall_meta =
     (case map_of overall_meta current_name of
        None \<Rightarrow> Inl (KeyError current_name)
      | Some entry \<Rightarrow>
          rename_resources rest
            (items_of (resolve_names_in_meta
               (JObj (setitem (delitem overall_meta current_name) resolved_name entry))
               current_name resolved_name)))"

definition resolve_meta :: "constants \<Rightarrow> config \<Rightarrow> collaborators \<Rightarrow> manifest \<Rightarrow> error + manifest" where
  "resolve_meta c cfg h overall_meta =
     (let overall_meta' = resolve_aliases h (aliases cfg) overall_meta in
      case collect_resolved_names c cfg h overall_meta' of
        Inl e \<Rightarrow> Inl e
      | Inr resolved_names \<Rightarrow> rename_resources resolved_names overall_meta')"

section \<open>The scan on a store of objects\<close>

text \<open>
  The model above passes descriptors by value, so it cannot tell which object a
  statement writes to. Python passes them by reference: \<^verbatim>\<open>resources_meta\<close> maps a name
  to an object, and the collision handler is handed the existing entry and the incoming
  one as two objects, either of which it could mutate. The model of this section keeps
  the objects in a store. An address stands for one descriptor object with the lists
  and dicts the loader has created inside it; \<^verbatim>\<open>load\<close> returns a new object at every
  call, so a loaded descriptor is allocated at \<open>next_addr\<close>. The manifest maps names to
  addresses.

  Every function takes the state and returns it, with the error if there is one:
  \<open>(Some e, st)\<close> says that \<open>e\<close> was raised when the state was \<open>st\<close>.
\<close>

type_synonym addr = nat

record state =
  heap :: "addr \<Rightarrow> json"
  next_addr :: addr
  resources_meta_on :: "(string \<times> addr) list"

text \<open>The writes of the handler are \<^verbatim>\<open>additional_item[k] = v\<close>,
  \<^verbatim>\<open>additional_item['dependencies'].append(each)\<close> and
  \<^verbatim>\<open>additional_item['resources'].update(...)\<close>. Each changes one item of the object it is
  applied to; the list and the dict written to are the ones the loader created inside
  that object, and what is taken from the other entry is only read afterwards. The
  objects the scan hands to the handler are dicts.\<close>

definition write_item :: "state \<Rightarrow> addr \<Rightarrow> string \<Rightarrow> json \<Rightarrow> state" where
  "write_item st a k v = st\<lparr>heap := (heap st)(a := JObj (setitem (items_of (heap st a)) k v))\<rparr>"

text \<open>The loop over \<^verbatim>\<open>initial_item['dependencies']\<close>, whose elements were read before the
  loop; \<^verbatim>\<open>additional_item['dependencies']\<close> is looked up at every append.\<close>

fun append_missing_on :: "json list \<Rightarrow> json list \<Rightarrow> state \<Rightarrow> addr \<Rightarrow> error option \<times> state" where
  "append_missing_on names [] st additional_item = (None, st)"
| "append_missing_on names (each # rest) st additional_item =
     (case getitem each ''resource_name'' of
        Inl e \<Rightarrow> (Some e, st)
      | Inr n \<Rightarrow>
          if \<not> hashable n then (Some TypeError, st)
          else if py_in n names then append_missing_on names rest st additional_item
          else
            (case getitem (heap st additional_item) ''dependencies'' of
               Inl e \<Rightarrow> (Some e, st)
             | Inr (JList ds) \<Rightarrow>
                 append_missing_on names rest
                   (write_item st additional_item ''dependencies'' (JList (ds @ [each])))
                   additional_item
             | Inr _ \<Rightarrow> (Some AttributeError, st)))"

definition join_dependencies_on :: "state \<Rightarrow> addr \<Rightarrow> addr \<Rightarrow> error option \<times> state" where
  "join_dependencies_on st initial_item additional_item =
     (case getitem (heap st additional_item) ''dependencies'' of
        Inl e \<Rightarrow> (Some e, st)
      | Inr additional_deps \<Rightarrow>
     (case py_iter additional_deps of
        Inl e \<Rightarrow> (Some e, st)
      | Inr additional_elems \<Rightarrow>
     (case dependency_names additional_elems of
        Inl e \<Rightarrow> (Some e, st)
      | Inr names \<Rightarrow>
     (case getitem (heap st initial_item) ''dependencies'' of
        Inl e \<Rightarrow> (Some e, st)
      | Inr initial_deps \<Rightarrow>
     (case py_iter initial_deps of
        Inl e \<Rightarrow> (Some e, st)
      | Inr initial_elems \<Rightarrow> append_missing_on names initial_elems st additional_item)))))"

text \<open>\<^verbatim>\<open>additional_item['resources'].update(initial_item['resources'])\<close>: the receiver is
  evaluated before the argument.\<close>

definition join_resources_on :: "state \<Rightarrow> addr \<Rightarrow> addr \<Rightarrow> error option \<times> state" where
  "join_resources_on st initial_item additional_item =
     (case getitem (heap st additional_item) ''resources'' of
        Inl e \<Rightarrow> (Some e, st)
      | Inr (JObj r) \<Rightarrow>
          (case getitem (heap st initial_item) ''resources'' of
             Inl e \<Rightarrow> (Some e, st)
           | Inr (JObj initial_resources) \<Rightarrow>
               (None, write_item st additional_item ''resources''
                        (JObj (update_dict r initial_resources)))
           | Inr _ \<Rightarrow> (Some TypeError, st))
      | Inr _ \<Rightarrow> (Some AttributeError, st))"

definition join_stage_and_changes_on :: "state \<Rightarrow> addr \<Rightarrow> addr \<Rightarrow> error option \<times> state" where
  "join_stage_and_changes_on st initial_item additional_item =
     (let init_deploy_stage = get (items_of (heap st initial_item)) ''deploy_stage'';
          st' = (if truthy init_deploy_stage
                 then write_item st additional_item ''deploy_stage'' init_deploy_stage
                 else st);
          init_apply = get_default (items_of (heap st' initial_item)) ''apply_changes'' (JList []);
          add_apply = get_default (items_of (heap st' additional_item)) ''apply_changes'' (JList [])
      in case py_add init_apply add_apply of
           Inl e \<Rightarrow> (Some e, st')
         | Inr apply \<Rightarrow> (None, write_item st' additional_item ''apply_changes'' apply))"

text \<open>The branch for two API descriptions. The two checks that raise a collision error
  come before the first write; the merged entry returned is the incoming object.\<close>

definition join_api_on :: "state \<Rightarrow> string \<Rightarrow> addr \<Rightarrow> addr \<Rightarrow> (error + addr option) \<times> state" where
  "join_api_on st additional_item_name initial_item additional_item =
     (case getitem (heap st initial_item) ''resources'' of
        Inl e \<Rightarrow> (Inl e, st)
      | Inr (JObj initial_resources) \<Rightarrow>
          (case duplicated_sub_resource additional_item_name (items_of (heap st additional_item))
                  (map fst initial_resources) of
             Some e \<Rightarrow> (Inl e, st)
           | None \<Rightarrow>
               (let initial_cache_config =
                      get (items_of (heap st initial_item)) ''cluster_cache_configuration'';
                    additional_cache_config =
                      get (items_of (heap st additional_item)) ''cluster_cache_configuration''
                in if truthy initial_cache_config \<and> truthy additional_cache_config
                   then (Inl (DuplicateCacheConfig additional_item_name), st)
                   else
                     (case join_dependencies_on
                             (if truthy initial_cache_config
                              then write_item st additional_item ''cluster_cache_configuration''
                                     initial_cache_config
                              else st)
                             initial_item additional_item of
                        (Some e, st') \<Rightarrow> (Inl e, st')
                      | (None, st') \<Rightarrow>
                     (case join_resources_on st' initial_item additional_item of
                        (Some e, st'') \<Rightarrow> (Inl e, st'')
                      | (None, st'') \<Rightarrow>
                     (case join_stage_and_changes_on st'' initial_item additional_item of
                        (Some e, st''') \<Rightarrow> (Inl e, st''')
                      | (None, st''') \<Rightarrow> (Inr (Some additional_item), st'''))))))
      | Inr _ \<Rightarrow> (Inl AttributeError, st))"

definition check_duplicated_resources_on ::
  "constants \<Rightarrow> state \<Rightarrow> string \<Rightarrow> addr \<Rightarrow> (error + addr option) \<times> state" where
  "check_duplicated_resources_on c st additional_item_name additional_item =
     (case map_of (resources_meta_on st) additional_item_name of
        None \<Rightarrow> (Inr None, st)
      | Some initial_item \<Rightarrow>
          (case getitem (heap st additional_item) ''resource_type'' of
             Inl e \<Rightarrow> (Inl e, st)
           | Inr additional_type \<Rightarrow>
               if \<not> truthy (heap st initial_item) then (Inr None, st)
               else
                 (case getitem (heap st initial_item) ''resource_type'' of
                    Inl e \<Rightarrow> (Inl e, st)
                  | Inr initial_type \<Rightarrow>
                      if py_eq additional_type initial_type \<and>
                         py_eq initial_type (JStr (API_GATEWAY_TYPE c))
                      then join_api_on st additional_item_name initial_item additional_item
                      else if py_eq additional_type initial_type
                      then
                        (if py_eq (heap st additional_item) (heap st initial_item)
                         then (Inl (DuplicateResource additional_item_name), st)
                         else (Inl (ConflictingResource additional_item_name
                                      (heap st initial_item) (heap st additional_item)), st))
                      else (Inr None, st))))"

text \<open>The four statements both branches of \<^verbatim>\<open>_look_for_configs\<close> end with, on the object
  just loaded: \<^verbatim>\<open>_populate_s3_path\<close> mutates it, the handler is called with its address,
  \<^verbatim>\<open>if res: resource = res\<close> picks the object to store, and the last statement binds the
  name to it.\<close>

definition store_resource_on ::
  "constants \<Rightarrow> string \<Rightarrow> state \<Rightarrow> string \<Rightarrow> (string \<times> json) list \<Rightarrow> error option \<times> state" where
  "store_resource_on c bundle_name st resource_name resource =
     (let a = next_addr st;
          st0 = st\<lparr>heap := (heap st)(a := JObj resource), next_addr := Suc a\<rparr>
      in case populate_s3_path c resource bundle_name of
           Inl e \<Rightarrow> (Some e, st0)
         | Inr resource' \<Rightarrow>
             (case check_duplicated_resources_on c
                     (st0\<lparr>heap := (heap st0)(a := JObj resource')\<rparr>) resource_name a of
                (Inl e, st') \<Rightarrow> (Some e, st')
              | (Inr res, st') \<Rightarrow>
                  (None,
                   st'\<lparr>resources_meta_on :=
                         setitem (resources_meta_on st') resource_name
                           (case res of
                              None \<Rightarrow> a
                            | Some r \<Rightarrow> if truthy (heap st' r) then r else a)\<rparr>)))"

text \<open>The two branches and the loop over the files of a directory, as in the model by
  value.\<close>

definition store_lambda_on ::
  "constants \<Rightarrow> string \<Rightarrow> state \<Rightarrow> json \<Rightarrow> error option \<times> state" where
  "store_lambda_on c bundle_name st lambda_conf =
     (case getitem lambda_conf ''name'' of
        Inl e \<Rightarrow> (Some e, st)
      | Inr (JStr lambda_name) \<Rightarrow>
          (case lambda_conf of
             JObj conf \<Rightarrow> store_resource_on c bundle_name st lambda_name conf
           | _ \<Rightarrow> (Some TypeError, st))
      | Inr _ \<Rightarrow> (Some NotModelled, st))"

fun store_deployment_resources_on ::
  "constants \<Rightarrow> string \<Rightarrow> state \<Rightarrow> (string \<times> json) list \<Rightarrow> error option \<times> state" where
  "store_deployment_resources_on c bundle_name st [] = (None, st)"
| "store_deployment_resources_on c bundle_name st ((resource_name, resource) # rest) =
     (case resource of
        JObj r \<Rightarrow>
          (case map_of r ''resource_type'' of
             None \<Rightarrow> (Some (NoResourceType resource_name), st)
           | Some resource_type \<Rightarrow>
               if resource_type \<notin> JStr ` set (RESOURCE_LIST c)
               then (Some (UnrecognizedResourceType resource_type), st)
               else
                 (case store_resource_on c bundle_name st resource_name r of
                    (Some e, st') \<Rightarrow> (Some e, st')
                  | (None, st') \<Rightarrow> store_deployment_resources_on c bundle_name st' rest))
      | _ \<Rightarrow> (Some TypeError, st))"

fun look_for_configs_on ::
  "constants \<Rightarrow> config_file list \<Rightarrow> state \<Rightarrow> string \<Rightarrow> error option \<times> state" where
  "look_for_configs_on c [] st bundle_name = (None, st)"
| "look_for_configs_on c (each # nested_files) st bundle_name =
     (case (case each of
              LambdaConfig lambda_conf \<Rightarrow> store_lambda_on c bundle_name st lambda_conf
            | DeploymentResources deployment_resources \<Rightarrow>
                store_deployment_resources_on c bundle_name st deployment_resources
            | OtherFile \<Rightarrow> (None, st)) of
        (Some e, st') \<Rightarrow> (Some e, st')
      | (None, st') \<Rightarrow> look_for_configs_on c nested_files st' bundle_name)"

text \<open>
  What the manifest holds in a state: the value of the object behind every name. A
  state is well allocated when every object of the manifest lies below \<open>next_addr\<close>, so
  that a newly loaded object is none of them. The collision errors are the four
  assertion errors of the handler. Two states are the same except at an address when
  they have the same manifest and allocation mark and the same object everywhere else.
\<close>

definition contents :: "state \<Rightarrow> manifest" where
  "contents st = map (\<lambda>(name, a). (name, heap st a)) (resources_meta_on st)"

definition allocated :: "state \<Rightarrow> bool" where
  "allocated st = list_all (\<lambda>(name, a). a < next_addr st) (resources_meta_on st)"

fun collision_error :: "error \<Rightarrow> bool" where
  "collision_error (DuplicateSubResource n s) = True"
| "collision_error (DuplicateCacheConfig n) = True"
| "collision_error (DuplicateResource n) = True"
| "collision_error (ConflictingResource n i a) = True"
| "collision_error _ = False"

definition same_except :: "state \<Rightarrow> state \<Rightarrow> addr \<Rightarrow> bool" where
  "same_except st st' a =
     (resources_meta_on st' = resources_meta_on st \<and> next_addr st' = next_addr st \<and>
      (\<forall>b. b \<noteq> a \<longrightarrow> heap st' b = heap st b))"

section \<open>Notions used in the statements\<close>

text \<open>The name of a dependency, and a dependency as the data model has it: a dict with
  a string under \<^verbatim>\<open>resource_name\<close>.\<close>

definition dep_name :: "json \<Rightarrow> json" where
  "dep_name d = (case getitem d ''resource_name'' of Inl e \<Rightarrow> JNull | Inr n \<Rightarrow> n)"

definition named_dependency :: "json \<Rightarrow> bool" where
  "named_dependency d = (case getitem d ''resource_name'' of Inr (JStr n) \<Rightarrow> True | _ \<Rightarrow> False)"

text \<open>
  What a loaded value denotes as a Python value, up to \<^verbatim>\<open>==\<close>: a dict is the map from
  its keys to what its values denote, whatever the order of its items; a list is the
  list of what its elements denote; \<^verbatim>\<open>True\<close> and \<^verbatim>\<open>False\<close> are the numbers 1 and 0, as
  \<^verbatim>\<open>bool\<close> is a subtype of \<^verbatim>\<open>int\<close>. Two values are deep-equal when they denote the same.
\<close>

datatype pyval =
    PNone
  | PNum int
  | PStr string
  | PList "pyval list"
  | PDict "string \<Rightarrow> pyval option"

fun denote :: "json \<Rightarrow> pyval" where
  "denote JNull = PNone"
| "denote (JBool b) = PNum (if b then 1 else 0)"
| "denote (JNum n) = PNum n"
| "denote (JStr s) = PStr s"
| "denote (JList xs) = PList (map denote xs)"
| "denote (JObj d) = PDict (map_of (map (\<lambda>(k, v). (k, denote v)) d))"

text \<open>
  The dependencies of an entry are the elements of its \<^verbatim>\<open>dependencies\<close> list. A
  manifest is closed when every dependency of every entry names a key of the manifest.
  It is shaped as the data model says when every entry is a dict whose \<^verbatim>\<open>dependencies\<close>
  is a list of dicts, or is absent or empty.
\<close>

definition dependencies_of :: "json \<Rightarrow> json list" where
  "dependencies_of entry =
     (case getitem entry ''dependencies'' of Inr (JList ds) \<Rightarrow> ds | _ \<Rightarrow> [])"

definition closed :: "manifest \<Rightarrow> bool" where
  "closed m =
     list_all (\<lambda>(name, entry).
        list_all (\<lambda>d. dep_name d \<in> JStr ` set (map fst m)) (dependencies_of entry)) m"

definition is_dict :: "json \<Rightarrow> bool" where
  "is_dict v = (case v of JObj d \<Rightarrow> True | _ \<Rightarrow> False)"

definition shaped :: "manifest \<Rightarrow> bool" where
  "shaped m =
     list_all (\<lambda>(name, entry).
        case entry of
          JObj e \<Rightarrow>
            (case get e ''dependencies'' of
               JList ds \<Rightarrow> list_all is_dict ds
             | v \<Rightarrow> \<not> truthy v)
        | _ \<Rightarrow> False) m"

text \<open>
  The statements below speak of the manifest after the alias pass. An entry is typed
  when it is a dict with a \<^verbatim>\<open>resource_type\<close>, eligible when that type is in
  \<^verbatim>\<open>GLOBAL_AWS_SERVICES\<close>, and renamed when it is eligible and the naming rules change
  its name. \<open>rule_part\<close> is what a prefix or suffix contributes to a name: its alias
  resolution when it is configured, nothing otherwise. \<open>rewrite_names\<close> applies the
  rewriting of old names to one entry, one renaming after the other.
\<close>

definition rewrite_names :: "(string \<times> string) list \<Rightarrow> json \<Rightarrow> json" where
  "rewrite_names names v =
     fold (\<lambda>(current_name, resolved_name) v. resolve_names_in_meta v current_name resolved_name)
       names v"

definition eligible :: "constants \<Rightarrow> json \<Rightarrow> bool" where
  "eligible c entry =
     (case getitem entry ''resource_type'' of
        Inr t \<Rightarrow> t \<in> JStr ` set (GLOBAL_AWS_SERVICES c)
      | Inl e \<Rightarrow> False)"

definition renamed :: "constants \<Rightarrow> config \<Rightarrow> collaborators \<Rightarrow> string \<times> json \<Rightarrow> bool" where
  "renamed c cfg h = (\<lambda>(name, entry). eligible c entry \<and> name \<noteq> resolve_resource_name cfg h name)"

definition typed_entry :: "json \<Rightarrow> bool" where
  "typed_entry entry = (case getitem entry ''resource_type'' of Inr t \<Rightarrow> True | Inl e \<Rightarrow> False)"

definition rule_part :: "collaborators \<Rightarrow> string option \<Rightarrow> string" where
  "rule_part h r =
     (case r of
        None \<Rightarrow> []
      | Some s \<Rightarrow> if s \<noteq> [] then resolve_aliases_for_string h s else [])"

section \<open>Example inputs\<close>

text \<open>Concrete constants, naming rules and collaborators, on which the theorems below
  are instantiated: the prefix is \<^verbatim>\<open>dev-\<close>, there are no aliases, and the two
  collaborators leave their argument as it is.\<close>

definition example_constants :: constants where
  "example_constants =
     \<lparr>API_GATEWAY_TYPE = ''api_gateway'', LAMBDA_TYPE = ''lambda'',
      EBS_TYPE = ''beanstalk_app'', S3_PATH_NAME = ''s3_path'',
      RESOURCE_LIST = [''lambda'', ''api_gateway'', ''beanstalk_app'', ''sqs_queue''],
      GLOBAL_AWS_SERVICES = [''sqs_queue'']\<rparr>"

definition example_collaborators :: collaborators where
  "example_collaborators =
     \<lparr>resolve_aliases_for_string = (\<lambda>s. s),
      resolve_dynamic_identifier = (\<lambda>name v meta. meta)\<rparr>"

definition example_config :: config where
  "example_config = \<lparr>resources_prefix = Some ''dev-'', resources_suffix = None, aliases = []\<rparr>"

text \<open>Two descriptions of one API, found in two shared files.\<close>

definition example_api_existing :: "(string \<times> json) list" where
  "example_api_existing =
     [(''resource_type'', JStr ''api_gateway''), (''deploy_stage'', JStr ''prod''),
      (''dependencies'',
         JList [JObj [(''resource_name'', JStr ''f1'')], JObj [(''resource_name'', JStr ''f2'')]]),
      (''resources'', JObj [(''/a'', JObj [])]),
      (''cluster_cache_configuration'', JObj [(''cache_size'', JNum 1)]),
      (''apply_changes'', JList [JStr ''x''])]"

definition example_api_incoming :: "(string \<times> json) list" where
  "example_api_incoming =
     [(''resource_type'', JStr ''api_gateway''), (''deploy_stage'', JStr ''dev''),
      (''dependencies'',
         JList [JObj [(''resource_name'', JStr ''f2'')], JObj [(''resource_name'', JStr ''f3'')]]),
      (''resources'', JObj [(''/b'', JObj [])])]"

text \<open>Two more descriptions of the API of \<open>example_api_existing\<close>: one that shares a
  sub-resource with it and has a cache configuration, one whose cache configuration
  is the empty object.\<close>

definition example_api_clash :: "(string \<times> json) list" where
  "example_api_clash =
     [(''resource_type'', JStr ''api_gateway''), (''dependencies'', JList []),
      (''resources'', JObj [(''/a'', JObj [])]),
      (''cluster_cache_configuration'', JObj [(''cache_size'', JNum 2)])]"

definition example_api_empty_cache :: "(string \<times> json) list" where
  "example_api_empty_cache =
     [(''resource_type'', JStr ''api_gateway''), (''dependencies'', JList []),
      (''resources'', JObj [(''/b'', JObj [])]),
      (''cluster_cache_configuration'', JObj [])]"

text \<open>Descriptions of the API without the optional \<^verbatim>\<open>dependencies\<close>, and one with
  an empty list of them and no cache configuration.\<close>

definition example_api_bare_existing :: "(string \<times> json) list" where
  "example_api_bare_existing =
     [(''resource_type'', JStr ''api_gateway''), (''resources'', JObj [(''/a'', JObj [])])]"

definition example_api_bare_incoming :: "(string \<times> json) list" where
  "example_api_bare_incoming =
     [(''resource_type'', JStr ''api_gateway''), (''resources'', JObj [(''/b'', JObj [])])]"

definition example_api_plain :: "(string \<times> json) list" where
  "example_api_plain =
     [(''resource_type'', JStr ''api_gateway''), (''dependencies'', JList []),
      (''resources'', JObj [(''/c'', JObj [])])]"

text \<open>A project of two directories: a resource that depends on a queue, and the queue.\<close>

definition example_project :: "config_file list list" where
  "example_project =
     [[OtherFile,
       DeploymentResources
         [(''fn'', JObj [(''resource_type'', JStr ''sqs_queue''),
                         (''dependencies'', JList [JObj [(''resource_name'', JStr ''q'')]])])]],
      [DeploymentResources [(''q'', JObj [(''resource_type'', JStr ''sqs_queue'')])]]]"

text \<open>A manifest of a queue and a function that refers to it.\<close>

definition example_manifest :: manifest where
  "example_manifest =
     [(''queueA'', JObj [(''resource_type'', JStr ''sqs_queue'')]),
      (''fn'', JObj [(''resource_type'', JStr ''lambda''), (''target'', JStr ''queueA'')])]"

text \<open>A function whose event sources name the queue twice: as a string, and inside a
  dict that follows the string in the same list.\<close>

definition example_subscriptions :: manifest where
  "example_subscriptions =
     [(''queueA'', JObj [(''resource_type'', JStr ''sqs_queue'')]),
      (''fn'', JObj [(''resource_type'', JStr ''lambda''),
                     (''event_sources'',
                        JList [JStr ''queueA'', JObj [(''target_queue'', JStr ''queueA'')]])])]"

text \<open>A store whose manifest holds one queue, at address 0.\<close>

definition example_state :: state where
  "example_state =
     \<lparr>heap = (\<lambda>a. JNull)(0 := JObj [(''resource_type'', JStr ''sqs_queue''), (''region'', JStr ''eu'')]),
      next_addr = 1,
      resources_meta_on = [(''q'', 0)]\<rparr>"

section \<open>The derived storage location: properties\<close>

lemma lower_Nil: "lower [] = []"
  by (simp add: lower_def)

text \<open>
  C9. The derived attribute is populated by type. A Beanstalk entry needs
  \<^verbatim>\<open>deployment_package\<close> and gets \<^verbatim>\<open>bundle_name/deployment_package\<close>. A lambda entry needs
  \<^verbatim>\<open>runtime\<close>; with the runtime \<^verbatim>\<open>python2.7\<close> it needs \<^verbatim>\<open>name\<close> and \<^verbatim>\<open>version\<close>, with
  \<^verbatim>\<open>java8\<close> it needs \<^verbatim>\<open>deployment_package\<close>. A required attribute that is missing (or
  empty) raises the missing-field error, which names the field and carries the entry.
  An entry of any other type is returned as it is, so without the attribute unless it
  came with one.
\<close>

theorem populate_s3_path_by_type:
  "(get meta ''resource_type'' = JStr (EBS_TYPE c) \<longrightarrow>
      (\<not> truthy (get meta ''deployment_package'') \<longrightarrow>
         populate_s3_path c meta b =
           Inl (MissingField ''Beanstalk_app'' ''deployment_package'' (JObj meta))) \<and>
      (\<forall>p. p \<noteq> [] \<and> get meta ''deployment_package'' = JStr p \<longrightarrow>
         populate_s3_path c meta b = Inr (setitem meta (S3_PATH_NAME c) (JStr (b @ ''/'' @ p))))) \<and>
   (get meta ''resource_type'' = JStr (LAMBDA_TYPE c) \<and> LAMBDA_TYPE c \<noteq> EBS_TYPE c \<longrightarrow>
      (\<not> truthy (get meta ''runtime'') \<longrightarrow>
         populate_s3_path c meta b = Inl (MissingField ''Lambda'' ''runtime'' (JObj meta))) \<and>
      (\<forall>r. get meta ''runtime'' = JStr r \<and> lower r = ''python2.7'' \<longrightarrow>
         (\<not> truthy (get meta ''name'') \<or> \<not> truthy (get meta ''version'') \<longrightarrow>
            populate_s3_path c meta b =
              Inl (MissingField ''Lambda'' ''name and version'' (JObj meta))) \<and>
         (\<forall>n v. n \<noteq> [] \<and> v \<noteq> [] \<and> get meta ''name'' = JStr n \<and> get meta ''version'' = JStr v \<longrightarrow>
            populate_s3_path c meta b =
              Inr (setitem meta (S3_PATH_NAME c) (JStr (b @ ''/'' @ n @ ''-'' @ v @ ''.zip''))))) \<and>
      (\<forall>r. get meta ''runtime'' = JStr r \<and> lower r = ''java8'' \<longrightarrow>
         (\<not> truthy (get meta ''deployment_package'') \<longrightarrow>
            populate_s3_path c meta b =
              Inl (MissingField ''Lambda'' ''deployment_package'' (JObj meta))) \<and>
         (\<forall>p. p \<noteq> [] \<and> get meta ''deployment_package'' = JStr p \<longrightarrow>
            populate_s3_path c meta b =
              Inr (setitem meta (S3_PATH_NAME c) (JStr (b @ ''/'' @ p)))))) \<and>
   (hashable (get meta ''resource_type'') \<and>
    get meta ''resource_type'' \<noteq> JStr (EBS_TYPE c) \<and>
    get meta ''resource_type'' \<noteq> JStr (LAMBDA_TYPE c) \<longrightarrow>
      populate_s3_path c meta b = Inr meta)"
  by (auto simp: populate_s3_path_def populate_s3_path_ebs_def populate_s3_path_lambda_def
      populate_s3_path_python_def populate_s3_path_java_def Let_def lower_Nil)

theorem populate_s3_path_by_type_witness:
  "populate_s3_path example_constants
     [(''resource_type'', JStr ''beanstalk_app''), (''deployment_package'', JStr ''app.war'')] ''b1'' =
     Inr [(''resource_type'', JStr ''beanstalk_app''), (''deployment_package'', JStr ''app.war''),
          (''s3_path'', JStr ''b1/app.war'')] \<and>
   populate_s3_path example_constants [(''resource_type'', JStr ''beanstalk_app'')] ''b1'' =
     Inl (MissingField ''Beanstalk_app'' ''deployment_package''
            (JObj [(''resource_type'', JStr ''beanstalk_app'')])) \<and>
   populate_s3_path example_constants
     [(''name'', JStr ''svc''), (''version'', JStr ''1.0''), (''resource_type'', JStr ''lambda''),
      (''runtime'', JStr ''python2.7'')] ''b1'' =
     Inr [(''name'', JStr ''svc''), (''version'', JStr ''1.0''), (''resource_type'', JStr ''lambda''),
          (''runtime'', JStr ''python2.7''), (''s3_path'', JStr ''b1/svc-1.0.zip'')] \<and>
   populate_s3_path example_constants
     [(''name'', JStr ''svc''), (''resource_type'', JStr ''lambda''), (''runtime'', JStr ''python2.7'')] ''b1'' =
     Inl (MissingField ''Lambda'' ''name and version''
            (JObj [(''name'', JStr ''svc''), (''resource_type'', JStr ''lambda''),
                   (''runtime'', JStr ''python2.7'')])) \<and>
   populate_s3_path example_constants
     [(''resource_type'', JStr ''lambda''), (''runtime'', JStr ''Java8''),
      (''deployment_package'', JStr ''fn.jar'')] ''b1'' =
     Inr [(''resource_type'', JStr ''lambda''), (''runtime'', JStr ''Java8''),
          (''deployment_package'', JStr ''fn.jar''), (''s3_path'', JStr ''b1/fn.jar'')] \<and>
   populate_s3_path example_constants [(''resource_type'', JStr ''lambda'')] ''b1'' =
     Inl (MissingField ''Lambda'' ''runtime'' (JObj [(''resource_type'', JStr ''lambda'')])) \<and>
   populate_s3_path example_constants [(''resource_type'', JStr ''sqs_queue'')] ''b1'' =
     Inr [(''resource_type'', JStr ''sqs_queue'')]"
  using
    populate_s3_path_by_type [of "[(''resource_type'', JStr ''beanstalk_app''), (''deployment_package'', JStr ''app.war'')]" example_constants "''b1''"]
    populate_s3_path_by_type [of "[(''resource_type'', JStr ''beanstalk_app'')]" example_constants "''b1''"]
    populate_s3_path_by_type [of "[(''name'', JStr ''svc''), (''version'', JStr ''1.0''), (''resource_type'', JStr ''lambda''), (''runtime'', JStr ''python2.7'')]" example_constants "''b1''"]
    populate_s3_path_by_type [of "[(''name'', JStr ''svc''), (''resource_type'', JStr ''lambda''), (''runtime'', JStr ''python2.7'')]" example_constants "''b1''"]
    populate_s3_path_by_type [of "[(''resource_type'', JStr ''lambda''), (''runtime'', JStr ''Java8''), (''deployment_package'', JStr ''fn.jar'')]" example_constants "''b1''"]
    populate_s3_path_by_type [of "[(''resource_type'', JStr ''lambda'')]" example_constants "''b1''"]
    populate_s3_path_by_type [of "[(''resource_type'', JStr ''sqs_queue'')]" example_constants "''b1''"]
  by (simp add: example_constants_def get_def lower_def lower_char_def)

section \<open>The collision handler: properties\<close>

lemma map_of_setitem: "map_of (setitem d k v) = (map_of d)(k \<mapsto> v)"
  by (induction d) (auto simp: fun_eq_iff)

lemma map_of_update_dict:
  "distinct (map fst e) \<Longrightarrow> map_of (update_dict d e) = map_of d ++ map_of e"
proof (induction e arbitrary: d)
  case Nil
  then show ?case by simp
next
  case (Cons p ps)
  have "fst p \<notin> dom (map_of ps)" using Cons.prems by (auto simp: dom_map_of_conv_image_fst)
  then have "map_of ps (fst p) = None" by blast
  then show ?case using Cons
    by (cases p) (auto simp: map_of_setitem fun_eq_iff map_add_def split: option.splits)
qed

lemma py_in_JStr: "py_in (JStr s) names = (JStr s \<in> set names)"
  by (induction names) (auto simp: py_in_def)

lemma named_dependencyE:
  "named_dependency d \<Longrightarrow> \<exists>n. getitem d ''resource_name'' = Inr (JStr n) \<and> dep_name d = JStr n"
  by (auto simp: named_dependency_def dep_name_def split: sum.splits json.splits)

lemma duplicated_sub_resource_None:
  "map_of add ''resources'' = Some (JObj ares) \<Longrightarrow> set keys \<inter> set (map fst ares) = {} \<Longrightarrow>
   duplicated_sub_resource name add keys = None"
  by (induction keys) auto

lemma dependency_names_named:
  "list_all named_dependency xs \<Longrightarrow> dependency_names xs = Inr (map dep_name xs)"
proof (induction xs)
  case Nil
  then show ?case by simp
next
  case (Cons x xs)
  then obtain n where "getitem x ''resource_name'' = Inr (JStr n)" "dep_name x = JStr n"
    using named_dependencyE by auto
  then show ?case using Cons by simp
qed

lemma append_missing_named:
  "list_all named_dependency ys \<Longrightarrow>
   append_missing names ys (JList ds) =
     Inr (JList (ds @ filter (\<lambda>d. dep_name d \<notin> set names) ys))"
proof (induction ys arbitrary: ds)
  case Nil
  then show ?case by simp
next
  case (Cons y ys)
  then obtain n where "getitem y ''resource_name'' = Inr (JStr n)" "dep_name y = JStr n"
    using named_dependencyE by auto
  then show ?case using Cons by (simp add: py_in_JStr)
qed

lemma join_dependencies_named:
  assumes "map_of add ''dependencies'' = Some (JList adeps)"
    and "map_of init ''dependencies'' = Some (JList ideps)"
    and "list_all named_dependency adeps" and "list_all named_dependency ideps"
  shows "join_dependencies init add =
     Inr (setitem add ''dependencies''
            (JList (adeps @ filter (\<lambda>d. dep_name d \<notin> dep_name ` set adeps) ideps)))"
  using assms
  by (simp add: join_dependencies_def dependency_names_named append_missing_named)

lemma truthy_init: "map_of init ''resource_type'' = Some t \<Longrightarrow> truthy (JObj init)"
  by (cases init) auto

text \<open>
  C1, as stated, fails in two ways. The merge subscripts \<^verbatim>\<open>dependencies\<close> of both
  entries, which the data model makes optional: two API descriptions without it, with
  disjoint \<^verbatim>\<open>resources\<close> and no cache configuration, raise \<^verbatim>\<open>KeyError\<close> instead of
  being merged. And the merge carries a cache configuration over only when it passes
  the code's truth test: an existing entry whose cache configuration is the empty
  object, merged with an incoming entry that has none, gives an entry without the
  attribute, although only one side had it.
\<close>

theorem api_merge_counterexample:
  "check_duplicated_resources example_constants [(''api'', JObj example_api_bare_existing)]
     ''api'' example_api_bare_incoming = Inl (KeyError ''dependencies'') \<and>
   map_of example_api_empty_cache ''cluster_cache_configuration'' = Some (JObj []) \<and>
   map_of example_api_plain ''cluster_cache_configuration'' = None \<and>
   check_duplicated_resources example_constants [(''api'', JObj example_api_empty_cache)]
     ''api'' example_api_plain =
     Inr (Some (JObj [(''resource_type'', JStr ''api_gateway''), (''dependencies'', JList []),
                      (''resources'', JObj [(''/c'', JObj []), (''/b'', JObj [])]),
                      (''apply_changes'', JList [])]))"
  by (simp add: example_api_bare_existing_def example_api_bare_incoming_def
      example_api_empty_cache_def example_api_plain_def example_constants_def
      check_duplicated_resources_def join_api_def join_dependencies_def join_resources_def
      join_stage_and_changes_def get_def get_default_def py_in_def Let_def)

text \<open>
  C1, amended. Two API descriptions under one name are merged into the incoming entry
  when each has a \<^verbatim>\<open>resources\<close> map (a dict, so with no key twice), a \<^verbatim>\<open>dependencies\<close>
  list of dependencies named by strings and an \<^verbatim>\<open>apply_changes\<close> list or none, their
  \<^verbatim>\<open>resources\<close> are disjoint and at most one of them carries a cache configuration
  that is not empty. In the merged
  entry \<^verbatim>\<open>resources\<close> is the union of both maps; \<^verbatim>\<open>dependencies\<close> is the incoming list
  followed by the existing dependencies whose name is not in the incoming list; a
  cache configuration and a \<^verbatim>\<open>deploy_stage\<close> of the existing entry that are not empty
  replace the incoming ones, and the incoming ones are kept otherwise;
  \<^verbatim>\<open>apply_changes\<close> is the existing list followed by the incoming list; every other
  attribute is the incoming entry's.
\<close>

theorem api_merge:
  assumes collision: "map_of initial_meta_dict name = Some (JObj init)"
    and types: "map_of init ''resource_type'' = Some (JStr (API_GATEWAY_TYPE c))"
      "map_of add ''resource_type'' = Some (JStr (API_GATEWAY_TYPE c))"
    and resources: "map_of init ''resources'' = Some (JObj ires)"
      "map_of add ''resources'' = Some (JObj ares)"
      "distinct (map fst ires)" "set (map fst ires) \<inter> set (map fst ares) = {}"
    and cache: "\<not> (truthy (get init ''cluster_cache_configuration'') \<and>
                   truthy (get add ''cluster_cache_configuration''))"
    and deps: "map_of init ''dependencies'' = Some (JList ideps)"
      "map_of add ''dependencies'' = Some (JList adeps)"
      "list_all named_dependency ideps" "list_all named_dependency adeps"
    and changes: "get_default init ''apply_changes'' (JList []) = JList ia"
      "get_default add ''apply_changes'' (JList []) = JList aa"
  shows "\<exists>r rres.
     check_duplicated_resources c initial_meta_dict name add = Inr (Some (JObj r)) \<and>
     map_of r ''resources'' = Some (JObj rres) \<and>
     map_of rres = map_of ares ++ map_of ires \<and>
     map_of r ''dependencies'' =
       Some (JList (adeps @ filter (\<lambda>d. dep_name d \<notin> dep_name ` set adeps) ideps)) \<and>
     map_of r ''cluster_cache_configuration'' =
       (if truthy (get init ''cluster_cache_configuration'')
        then map_of init ''cluster_cache_configuration''
        else map_of add ''cluster_cache_configuration'') \<and>
     map_of r ''deploy_stage'' =
       (if truthy (get init ''deploy_stage'') then map_of init ''deploy_stage''
        else map_of add ''deploy_stage'') \<and>
     map_of r ''apply_changes'' = Some (JList (ia @ aa)) \<and>
     (\<forall>k. k \<notin> {''resources'', ''dependencies'', ''cluster_cache_configuration'',
               ''deploy_stage'', ''apply_changes''} \<longrightarrow> map_of r k = map_of add k)"
proof -
  define icc where "icc = get init ''cluster_cache_configuration''"
  define item1 where "item1 = (if truthy icc then setitem add ''cluster_cache_configuration'' icc else add)"
  define item2 where "item2 = setitem item1 ''dependencies''
      (JList (adeps @ filter (\<lambda>d. dep_name d \<notin> dep_name ` set adeps) ideps))"
  define item3 where "item3 = setitem item2 ''resources'' (JObj (update_dict ares ires))"
  define ids where "ids = get init ''deploy_stage''"
  define item4 where "item4 = (if truthy ids then setitem item3 ''deploy_stage'' ids else item3)"
  define r where "r = setitem item4 ''apply_changes'' (JList (ia @ aa))"
  have m1: "map_of item1 = (if truthy icc then (map_of add)(''cluster_cache_configuration'' \<mapsto> icc) else map_of add)"
    by (simp add: item1_def map_of_setitem)
  have dup: "duplicated_sub_resource name add (map fst ires) = None"
    using resources by (intro duplicated_sub_resource_None) auto
  have "map_of item1 ''dependencies'' = Some (JList adeps)"
    using deps by (simp add: m1)
  then have j1: "join_dependencies init item1 = Inr item2"
    using deps by (simp add: join_dependencies_named item2_def)
  have "map_of item2 ''resources'' = Some (JObj ares)"
    using resources by (simp add: item2_def map_of_setitem m1)
  then have j2: "join_resources ires item2 = Inr item3"
    by (simp add: join_resources_def item3_def)
  have "map_of item4 ''apply_changes'' = map_of add ''apply_changes''"
    by (simp add: item4_def item3_def item2_def map_of_setitem m1)
  then have "get_default item4 ''apply_changes'' (JList []) = JList aa"
    using changes by (simp add: get_default_def)
  then have j3: "join_stage_and_changes init item3 = Inr r"
    using changes by (simp add: join_stage_and_changes_def Let_def ids_def[symmetric] item4_def[symmetric] r_def)
  have "join_api name init add = Inr (Some (JObj r))"
    using resources cache dup j1 j2 j3
    by (simp add: join_api_def Let_def icc_def[symmetric] item1_def[symmetric])
  then have res: "check_duplicated_resources c initial_meta_dict name add = Inr (Some (JObj r))"
    using collision types truthy_init[OF types(1)]
    by (simp add: check_duplicated_resources_def)
  have mr: "map_of r = ((if truthy ids then (map_of item3)(''deploy_stage'' \<mapsto> ids) else map_of item3))
      (''apply_changes'' \<mapsto> JList (ia @ aa))"
    by (simp add: r_def item4_def map_of_setitem)
  have m3: "map_of item3 = (map_of item1)(''dependencies'' \<mapsto>
        JList (adeps @ filter (\<lambda>d. dep_name d \<notin> dep_name ` set adeps) ideps),
        ''resources'' \<mapsto> JObj (update_dict ares ires))"
    by (simp add: item3_def item2_def map_of_setitem)
  have icc_some: "truthy icc \<Longrightarrow> map_of init ''cluster_cache_configuration'' = Some icc"
    by (auto simp: icc_def get_def split: option.splits)
  have ids_some: "truthy ids \<Longrightarrow> map_of init ''deploy_stage'' = Some ids"
    by (auto simp: ids_def get_def split: option.splits)
  show ?thesis
  proof (intro exI conjI)
    show "check_duplicated_resources c initial_meta_dict name add = Inr (Some (JObj r))"
      by (rule res)
    show "map_of r ''resources'' = Some (JObj (update_dict ares ires))"
      by (simp add: mr m3)
    show "map_of (update_dict ares ires) = map_of ares ++ map_of ires"
      using resources by (simp add: map_of_update_dict)
    show "map_of r ''dependencies'' =
       Some (JList (adeps @ filter (\<lambda>d. dep_name d \<notin> dep_name ` set adeps) ideps))"
      by (simp add: mr m3)
    show "map_of r ''cluster_cache_configuration'' =
       (if truthy (get init ''cluster_cache_configuration'')
        then map_of init ''cluster_cache_configuration''
        else map_of add ''cluster_cache_configuration'')"
      using icc_some by (simp add: mr m3 m1 icc_def[symmetric])
    show "map_of r ''deploy_stage'' =
       (if truthy (get init ''deploy_stage'') then map_of init ''deploy_stage''
        else map_of add ''deploy_stage'')"
      using ids_some by (simp add: mr m3 m1 ids_def[symmetric])
    show "map_of r ''apply_changes'' = Some (JList (ia @ aa))"
      by (simp add: mr)
    show "\<forall>k. k \<notin> {''resources'', ''dependencies'', ''cluster_cache_configuration'',
               ''deploy_stage'', ''apply_changes''} \<longrightarrow> map_of r k = map_of add k"
      by (simp add: mr m3 m1)
  qed
qed

theorem api_merge_witness:
  "\<exists>r rres.
     check_duplicated_resources example_constants [(''api'', JObj example_api_existing)] ''api''
       example_api_incoming = Inr (Some (JObj r)) \<and>
     map_of r ''resources'' = Some (JObj rres) \<and>
     map_of rres = map_of [(''/b'', JObj [])] ++ map_of [(''/a'', JObj [])] \<and>
     map_of r ''dependencies'' =
       Some (JList [JObj [(''resource_name'', JStr ''f2'')], JObj [(''resource_name'', JStr ''f3'')],
                    JObj [(''resource_name'', JStr ''f1'')]]) \<and>
     map_of r ''cluster_cache_configuration'' = Some (JObj [(''cache_size'', JNum 1)]) \<and>
     map_of r ''deploy_stage'' = Some (JStr ''prod'') \<and>
     map_of r ''apply_changes'' = Some (JList [JStr ''x'']) \<and>
     map_of r ''resource_type'' = Some (JStr ''api_gateway'')"
proof -
  have "\<exists>r rres.
     check_duplicated_resources example_constants [(''api'', JObj example_api_existing)] ''api''
       example_api_incoming = Inr (Some (JObj r)) \<and>
     map_of r ''resources'' = Some (JObj rres) \<and>
     map_of rres = map_of [(''/b'', JObj [])] ++ map_of [(''/a'', JObj [])] \<and>
     map_of r ''dependencies'' =
       Some (JList ([JObj [(''resource_name'', JStr ''f2'')], JObj [(''resource_name'', JStr ''f3'')]] @
          filter (\<lambda>d. dep_name d \<notin> dep_name `
                    set [JObj [(''resource_name'', JStr ''f2'')], JObj [(''resource_name'', JStr ''f3'')]])
            [JObj [(''resource_name'', JStr ''f1'')], JObj [(''resource_name'', JStr ''f2'')]])) \<and>
     map_of r ''cluster_cache_configuration'' =
       (if truthy (get example_api_existing ''cluster_cache_configuration'')
        then map_of example_api_existing ''cluster_cache_configuration''
        else map_of example_api_incoming ''cluster_cache_configuration'') \<and>
     map_of r ''deploy_stage'' =
       (if truthy (get example_api_existing ''deploy_stage'')
        then map_of example_api_existing ''deploy_stage''
        else map_of example_api_incoming ''deploy_stage'') \<and>
     map_of r ''apply_changes'' = Some (JList ([JStr ''x''] @ [])) \<and>
     (\<forall>k. k \<notin> {''resources'', ''dependencies'', ''cluster_cache_configuration'',
               ''deploy_stage'', ''apply_changes''} \<longrightarrow>
          map_of r k = map_of example_api_incoming k)"
    by (rule api_merge)
      (simp_all add: example_constants_def example_api_existing_def example_api_incoming_def
         get_def get_default_def named_dependency_def)
  then obtain r rres where
    "check_duplicated_resources example_constants [(''api'', JObj example_api_existing)] ''api''
       example_api_incoming = Inr (Some (JObj r))"
    "map_of r ''resources'' = Some (JObj rres)"
    "map_of rres = map_of [(''/b'', JObj [])] ++ map_of [(''/a'', JObj [])]"
    "map_of r ''dependencies'' =
       Some (JList ([JObj [(''resource_name'', JStr ''f2'')], JObj [(''resource_name'', JStr ''f3'')]] @
          filter (\<lambda>d. dep_name d \<notin> dep_name `
                    set [JObj [(''resource_name'', JStr ''f2'')], JObj [(''resource_name'', JStr ''f3'')]])
            [JObj [(''resource_name'', JStr ''f1'')], JObj [(''resource_name'', JStr ''f2'')]]))"
    "map_of r ''cluster_cache_configuration'' =
       (if truthy (get example_api_existing ''cluster_cache_configuration'')
        then map_of example_api_existing ''cluster_cache_configuration''
        else map_of example_api_incoming ''cluster_cache_configuration'')"
    "map_of r ''deploy_stage'' =
       (if truthy (get example_api_existing ''deploy_stage'')
        then map_of example_api_existing ''deploy_stage''
        else map_of example_api_incoming ''deploy_stage'')"
    "map_of r ''apply_changes'' = Some (JList ([JStr ''x''] @ []))"
    "\<forall>k. k \<notin> {''resources'', ''dependencies'', ''cluster_cache_configuration'',
               ''deploy_stage'', ''apply_changes''} \<longrightarrow>
          map_of r k = map_of example_api_incoming k"
    by blast
  then show ?thesis
    by (intro exI[of _ r] exI[of _ rres])
       (simp add: example_api_existing_def example_api_incoming_def get_def dep_name_def)
qed

lemma map_of_denote:
  "map_of (map (\<lambda>(k, v). (k, denote v)) d) k = map_option denote (map_of d k)"
  by (induction d) auto

lemma denote_atoms:
  "denote w = PNone \<longleftrightarrow> w = JNull"
  "denote w = PStr s \<longleftrightarrow> w = JStr s"
  "denote w = PNum n \<longleftrightarrow> w = JNum n \<or> (n = 1 \<and> w = JBool True) \<or> (n = 0 \<and> w = JBool False)"
  by (cases w; auto)+

lemma distinct_keys_length:
  assumes "distinct (map fst d)" "distinct (map fst e)" "fst ` set d = fst ` set e"
  shows "length d = length e"
proof -
  have "card (set (map fst d)) = length d" "card (set (map fst e)) = length e"
    using assms(1,2) by (metis distinct_card length_map)+
  then show ?thesis using assms(3) by simp
qed

lemma py_eq_denote: "wf_json a \<Longrightarrow> wf_json b \<Longrightarrow> py_eq a b = (denote a = denote b)"
proof (induction a arbitrary: b)
  case JNull
  then show ?case using denote_atoms(1)[of b] by auto
next
  case (JBool x)
  then show ?case using denote_atoms(3)[of b "if x then 1 else 0"] by (cases x) auto
next
  case (JNum n)
  then show ?case using denote_atoms(3)[of b n] by auto
next
  case (JStr s)
  then show ?case using denote_atoms(2)[of b s] by auto
next
  case (JList xs)
  show ?case
  proof (cases b)
    case b: (JList ys)
    have el: "py_eq x y = (denote x = denote y)" if "x \<in> set xs" "y \<in> set ys" for x y
      using JList.IH[OF that(1)] JList.prems that b by (auto simp: list_all_iff)
    have "list_all2 py_eq xs ys \<longleftrightarrow> map denote xs = map denote ys"
    proof -
      have "list_all2 py_eq xs ys \<longleftrightarrow>
            length xs = length ys \<and> (\<forall>i < length xs. py_eq (xs ! i) (ys ! i))"
        by (rule list_all2_conv_all_nth)
      also have "\<dots> \<longleftrightarrow>
            length xs = length ys \<and> (\<forall>i < length xs. denote (xs ! i) = denote (ys ! i))"
        using el by (metis nth_mem)
      also have "\<dots> \<longleftrightarrow> map denote xs = map denote ys"
        by (auto simp: map_equality_iff dest: map_eq_imp_length_eq)
      finally show ?thesis .
    qed
    then show ?thesis using b by simp
  qed auto
next
  case (JObj d)
  show ?case
  proof (cases b)
    case b: (JObj e)
    have dd: "distinct (map fst d)" and de: "distinct (map fst e)"
      using JObj.prems b by auto
    have el: "py_eq v w = (denote v = denote w)" if "(k, v) \<in> set d" "(k', w) \<in> set e" for k v k' w
    proof -
      have "wf_json v" "wf_json w" using JObj.prems b that by (auto simp: list_all_iff)
      then show ?thesis using JObj.IH[of "(k, v)" v w] that by auto
    qed
    let ?P = "length d = length e \<and>
      list_all (\<lambda>(k, v). case map_of e k of None \<Rightarrow> False | Some v' \<Rightarrow> py_eq v v') d"
    let ?D = "map_of (map (\<lambda>(k, v). (k, denote v)) d)"
    let ?E = "map_of (map (\<lambda>(k, v). (k, denote v)) e)"
    have "?P \<longleftrightarrow> ?D = ?E"
    proof
      assume P: ?P
      have sub: "fst ` set d \<subseteq> fst ` set e"
      proof
        fix k assume "k \<in> fst ` set d"
        then obtain v where "(k, v) \<in> set d" by auto
        then have "map_of e k \<noteq> None" using P by (auto simp: list_all_iff split: option.splits)
        then show "k \<in> fst ` set e" by (simp add: map_of_eq_None_iff)
      qed
      have "card (fst ` set d) = card (fst ` set e)"
        using P dd de by (metis distinct_card length_map set_map)
      then have keys: "fst ` set d = fst ` set e"
        using sub by (simp add: card_subset_eq)
      show "?D = ?E"
      proof
        fix k
        show "?D k = ?E k"
        proof (cases "map_of d k")
          case None
          then have "k \<notin> fst ` set d" by (simp add: map_of_eq_None_iff)
          then have "map_of e k = None" using keys by (simp add: map_of_eq_None_iff)
          then show ?thesis using None by (simp add: map_of_denote)
        next
          case (Some v)
          then have in_d: "(k, v) \<in> set d" by (rule map_of_SomeD)
          then obtain w where w: "map_of e k = Some w" "py_eq v w"
            using P by (auto simp: list_all_iff split: option.splits)
          then have "(k, w) \<in> set e" by (simp add: map_of_SomeD)
          then have "denote v = denote w" using el[OF in_d] w(2) by simp
          then show ?thesis using Some w(1) by (simp add: map_of_denote)
        qed
      qed
    next
      assume eq: "?D = ?E"
      have look: "map_option denote (map_of d k) = map_option denote (map_of e k)" for k
        using fun_cong[OF eq, of k] by (simp add: map_of_denote)
      have keys: "fst ` set d = fst ` set e"
      proof -
        have "map_of d k = None \<longleftrightarrow> map_of e k = None" for k
          using look[of k] by (cases "map_of d k"; cases "map_of e k") auto
        then have "dom (map_of d) = dom (map_of e)" by (auto simp: dom_def)
        then show ?thesis by (simp add: dom_map_of_conv_image_fst)
      qed
      have len: "length d = length e" using distinct_keys_length[OF dd de keys] .
      have "case map_of e k of None \<Rightarrow> False | Some v' \<Rightarrow> py_eq v v'" if "(k, v) \<in> set d" for k v
      proof -
        have dv: "map_of d k = Some v" using that dd by simp
        then obtain w where w: "map_of e k = Some w" "denote v = denote w"
          using look[of k] by (cases "map_of e k") auto
        then have "(k, w) \<in> set e" by (simp add: map_of_SomeD)
        then have "py_eq v w" using el[OF that] w(2) by simp
        then show ?thesis using w(1) by simp
      qed
      then show ?P using len by (auto simp: list_all_iff)
    qed
    then show ?thesis using b by simp
  qed auto
qed

lemma denote_dict_eq:
  "denote (JObj d) = denote (JObj e) \<longleftrightarrow>
     (\<forall>k. map_option denote (map_of d k) = map_option denote (map_of e k))"
  by (auto simp: fun_eq_iff map_of_denote)

text \<open>
  C4. Two entries under one name with the same type, which is not the API type, are
  always fatal, and deep equality decides which error is raised: the entries are
  deep-equal exactly when they denote the same Python value, that is, when they have
  the same attributes, in whatever order, with deep-equal values. Deep-equal entries
  raise the error for equal resource descriptions, all others the error for two
  resources with equal names. In particular the same attributes in another order are
  equal; an attribute that only one of the two entries has, or an attribute whose
  values differ at any depth, makes them different. Both entries are dicts as the
  loader builds them: no key twice.
\<close>

theorem same_type_collision:
  assumes "map_of initial_meta_dict name = Some (JObj init)"
    and "map_of init ''resource_type'' = Some (JStr t)"
    and "map_of add ''resource_type'' = Some (JStr t)"
    and "t \<noteq> API_GATEWAY_TYPE c"
    and "wf_json (JObj init)" and "wf_json (JObj add)"
  shows "check_duplicated_resources c initial_meta_dict name add =
           Inl (if denote (JObj add) = denote (JObj init) then DuplicateResource name
                else ConflictingResource name (JObj init) (JObj add)) \<and>
         (set init = set add \<longrightarrow>
            check_duplicated_resources c initial_meta_dict name add =
              Inl (DuplicateResource name)) \<and>
         ((\<exists>k. k \<in> fst ` set add \<and> k \<notin> fst ` set init) \<or>
          (\<exists>k. k \<in> fst ` set init \<and> k \<notin> fst ` set add) \<or>
          (\<exists>k v w. map_of add k = Some v \<and> map_of init k = Some w \<and> denote v \<noteq> denote w) \<longrightarrow>
            check_duplicated_resources c initial_meta_dict name add =
              Inl (ConflictingResource name (JObj init) (JObj add)))"
proof -
  have "check_duplicated_resources c initial_meta_dict name add =
           Inl (if py_eq (JObj add) (JObj init) then DuplicateResource name
                else ConflictingResource name (JObj init) (JObj add))"
    using assms(1-4) truthy_init[OF assms(2)] by (simp add: check_duplicated_resources_def)
  then have r: "check_duplicated_resources c initial_meta_dict name add =
           Inl (if denote (JObj add) = denote (JObj init) then DuplicateResource name
                else ConflictingResource name (JObj init) (JObj add))"
    using py_eq_denote[OF assms(6) assms(5)] by simp
  have same: "denote (JObj add) = denote (JObj init)" if "set init = set add"
  proof -
    have "distinct (map fst add)" "distinct (map fst init)" using assms(5,6) by simp_all
    then have "map_of add = map_of init"
      using map_of_inject_set[of add init] that by simp
    then show ?thesis unfolding denote_dict_eq by simp
  qed
  have diff1: "denote (JObj add) \<noteq> denote (JObj init)"
    if "k \<in> fst ` set add" "k \<notin> fst ` set init" for k
  proof -
    have "map_of add k \<noteq> None" "map_of init k = None"
      using that by (simp_all add: map_of_eq_None_iff)
    then show ?thesis unfolding denote_dict_eq by (metis option.map_disc_iff)
  qed
  have diff2: "denote (JObj add) \<noteq> denote (JObj init)"
    if "k \<in> fst ` set init" "k \<notin> fst ` set add" for k
  proof -
    have "map_of init k \<noteq> None" "map_of add k = None"
      using that by (simp_all add: map_of_eq_None_iff)
    then show ?thesis unfolding denote_dict_eq by (metis option.map_disc_iff)
  qed
  have diff3: "denote (JObj add) \<noteq> denote (JObj init)"
    if "map_of add k = Some v" "map_of init k = Some w" "denote v \<noteq> denote w" for k v w
    unfolding denote_dict_eq using that by (metis option.inject option.simps(9))
  have c2: "set init = set add \<longrightarrow>
      check_duplicated_resources c initial_meta_dict name add = Inl (DuplicateResource name)"
    using r same by simp
  have "denote (JObj add) \<noteq> denote (JObj init)"
    if "(\<exists>k. k \<in> fst ` set add \<and> k \<notin> fst ` set init) \<or>
        (\<exists>k. k \<in> fst ` set init \<and> k \<notin> fst ` set add) \<or>
        (\<exists>k v w. map_of add k = Some v \<and> map_of init k = Some w \<and> denote v \<noteq> denote w)"
    using that diff1 diff2 diff3 by blast
  then have c3: "(\<exists>k. k \<in> fst ` set add \<and> k \<notin> fst ` set init) \<or>
          (\<exists>k. k \<in> fst ` set init \<and> k \<notin> fst ` set add) \<or>
          (\<exists>k v w. map_of add k = Some v \<and> map_of init k = Some w \<and> denote v \<noteq> denote w) \<longrightarrow>
            check_duplicated_resources c initial_meta_dict name add =
              Inl (ConflictingResource name (JObj init) (JObj add))"
    using r by simp
  show ?thesis by (intro conjI r c2 c3)
qed

theorem same_type_collision_witness:
  "check_duplicated_resources example_constants
     [(''q'', JObj [(''resource_type'', JStr ''sqs_queue''), (''fifo'', JBool True)])] ''q''
     [(''fifo'', JBool True), (''resource_type'', JStr ''sqs_queue'')] =
     Inl (DuplicateResource ''q'') \<and>
   check_duplicated_resources example_constants
     [(''q'', JObj [(''resource_type'', JStr ''sqs_queue''),
                    (''tags'', JObj [(''owner'', JList [JStr ''a'', JStr ''b''])])])] ''q''
     [(''resource_type'', JStr ''sqs_queue''),
      (''tags'', JObj [(''owner'', JList [JStr ''a'', JStr ''c''])])] =
     Inl (ConflictingResource ''q''
            (JObj [(''resource_type'', JStr ''sqs_queue''),
                   (''tags'', JObj [(''owner'', JList [JStr ''a'', JStr ''b''])])])
            (JObj [(''resource_type'', JStr ''sqs_queue''),
                   (''tags'', JObj [(''owner'', JList [JStr ''a'', JStr ''c''])])])) \<and>
   check_duplicated_resources example_constants
     [(''q'', JObj [(''resource_type'', JStr ''sqs_queue''), (''fifo'', JBool True)])] ''q''
     [(''resource_type'', JStr ''sqs_queue'')] =
     Inl (ConflictingResource ''q''
            (JObj [(''resource_type'', JStr ''sqs_queue''), (''fifo'', JBool True)])
            (JObj [(''resource_type'', JStr ''sqs_queue'')]))"
proof -
  let ?i1 = "[(''resource_type'', JStr ''sqs_queue''), (''fifo'', JBool True)]"
  let ?a1 = "[(''fifo'', JBool True), (''resource_type'', JStr ''sqs_queue'')]"
  let ?i2 = "[(''resource_type'', JStr ''sqs_queue''),
              (''tags'', JObj [(''owner'', JList [JStr ''a'', JStr ''b''])])]"
  let ?a2 = "[(''resource_type'', JStr ''sqs_queue''),
              (''tags'', JObj [(''owner'', JList [JStr ''a'', JStr ''c''])])]"
  let ?a3 = "[(''resource_type'', JStr ''sqs_queue'')]"
  have api: "''sqs_queue'' \<noteq> API_GATEWAY_TYPE example_constants"
    by (simp add: example_constants_def)
  have wf: "wf_json (JObj ?i1)" "wf_json (JObj ?a1)" "wf_json (JObj ?i2)" "wf_json (JObj ?a2)"
    "wf_json (JObj ?a3)"
    by simp_all
  have t: "map_of ?i1 ''resource_type'' = Some (JStr ''sqs_queue'')"
    "map_of ?a1 ''resource_type'' = Some (JStr ''sqs_queue'')"
    "map_of ?i2 ''resource_type'' = Some (JStr ''sqs_queue'')"
    "map_of ?a2 ''resource_type'' = Some (JStr ''sqs_queue'')"
    "map_of ?a3 ''resource_type'' = Some (JStr ''sqs_queue'')"
    by simp_all
  have m: "map_of [(''q'', JObj ?i1)] ''q'' = Some (JObj ?i1)"
    "map_of [(''q'', JObj ?i2)] ''q'' = Some (JObj ?i2)"
    by simp_all
  have "set ?i1 = set ?a1" by auto
  then have 1: "check_duplicated_resources example_constants [(''q'', JObj ?i1)] ''q'' ?a1 =
      Inl (DuplicateResource ''q'')"
    using same_type_collision[OF m(1) t(1) t(2) api wf(1) wf(2)] by blast
  have "denote (JObj [(''owner'', JList [JStr ''a'', JStr ''c''])]) \<noteq>
        denote (JObj [(''owner'', JList [JStr ''a'', JStr ''b''])])"
    by (simp add: fun_eq_iff)
  moreover have "map_of ?a2 ''tags'' = Some (JObj [(''owner'', JList [JStr ''a'', JStr ''c''])])"
    "map_of ?i2 ''tags'' = Some (JObj [(''owner'', JList [JStr ''a'', JStr ''b''])])"
    by simp_all
  ultimately have "\<exists>k v w. map_of ?a2 k = Some v \<and> map_of ?i2 k = Some w \<and> denote v \<noteq> denote w"
    by blast
  then have 2: "check_duplicated_resources example_constants [(''q'', JObj ?i2)] ''q'' ?a2 =
      Inl (ConflictingResource ''q'' (JObj ?i2) (JObj ?a2))"
    using same_type_collision[OF m(2) t(3) t(4) api wf(3) wf(4)] by blast
  have "''fifo'' \<in> fst ` set ?i1 \<and> ''fifo'' \<notin> fst ` set ?a3" by simp
  then have "\<exists>k. k \<in> fst ` set ?i1 \<and> k \<notin> fst ` set ?a3" by blast
  then have 3: "check_duplicated_resources example_constants [(''q'', JObj ?i1)] ''q'' ?a3 =
      Inl (ConflictingResource ''q'' (JObj ?i1) (JObj ?a3))"
    using same_type_collision[OF m(1) t(1) t(5) api wf(1) wf(5)] by blast
  show ?thesis using 1 2 3 by simp
qed

lemma duplicated_sub_resource_Some:
  "map_of add ''resources'' = Some (JObj ares) \<Longrightarrow> set keys \<inter> set (map fst ares) \<noteq> {} \<Longrightarrow>
   \<exists>k \<in> set keys \<inter> set (map fst ares).
     duplicated_sub_resource name add keys = Some (DuplicateSubResource name k)"
  by (induction keys) auto

text \<open>
  C6, as stated, fails: when the two API descriptions share a sub-resource and both
  carry a cache configuration, the shared sub-resource is found first and its error is
  the one raised; and a cache configuration that is present but empty does not count
  for the code's test, so two entries that both have the attribute can still merge.
\<close>

theorem both_cache_configs_counterexample:
  "map_of example_api_existing ''cluster_cache_configuration'' = Some (JObj [(''cache_size'', JNum 1)]) \<and>
   map_of example_api_clash ''cluster_cache_configuration'' = Some (JObj [(''cache_size'', JNum 2)]) \<and>
   check_duplicated_resources example_constants [(''api'', JObj example_api_existing)] ''api''
     example_api_clash = Inl (DuplicateSubResource ''api'' ''/a'') \<and>
   check_duplicated_resources example_constants [(''api'', JObj example_api_existing)] ''api''
     example_api_clash \<noteq> Inl (DuplicateCacheConfig ''api'') \<and>
   map_of example_api_empty_cache ''cluster_cache_configuration'' = Some (JObj []) \<and>
   (\<exists>r. check_duplicated_resources example_constants [(''api'', JObj example_api_existing)] ''api''
     example_api_empty_cache = Inr (Some r))"
  by (simp add: example_api_existing_def example_api_clash_def example_api_empty_cache_def
      example_constants_def check_duplicated_resources_def join_api_def join_dependencies_def
      join_resources_def join_stage_and_changes_def get_def get_default_def py_in_def Let_def)

text \<open>
  C6, amended. For two API descriptions under one name, each with a \<^verbatim>\<open>resources\<close> map:
  if a sub-resource name occurs in both maps, the merge raises the duplicated
  sub-resource error, naming such a name; otherwise, if both entries carry a cache
  configuration that is not empty, it raises the duplicated cache configuration error.
\<close>

theorem sub_resource_and_cache_errors:
  assumes "map_of initial_meta_dict name = Some (JObj init)"
    and "map_of init ''resource_type'' = Some (JStr (API_GATEWAY_TYPE c))"
    and "map_of add ''resource_type'' = Some (JStr (API_GATEWAY_TYPE c))"
    and "map_of init ''resources'' = Some (JObj ires)"
    and "map_of add ''resources'' = Some (JObj ares)"
  shows "(set (map fst ires) \<inter> set (map fst ares) \<noteq> {} \<longrightarrow>
            (\<exists>k \<in> set (map fst ires) \<inter> set (map fst ares).
               check_duplicated_resources c initial_meta_dict name add =
                 Inl (DuplicateSubResource name k))) \<and>
         (set (map fst ires) \<inter> set (map fst ares) = {} \<and>
          truthy (get init ''cluster_cache_configuration'') \<and>
          truthy (get add ''cluster_cache_configuration'') \<longrightarrow>
            check_duplicated_resources c initial_meta_dict name add =
              Inl (DuplicateCacheConfig name))"
proof -
  have r: "check_duplicated_resources c initial_meta_dict name add = join_api name init add"
    using assms truthy_init[OF assms(2)] by (simp add: check_duplicated_resources_def)
  have "\<exists>k \<in> set (map fst ires) \<inter> set (map fst ares).
          join_api name init add = Inl (DuplicateSubResource name k)"
    if ov: "set (map fst ires) \<inter> set (map fst ares) \<noteq> {}"
  proof -
    obtain k where "k \<in> set (map fst ires) \<inter> set (map fst ares)"
      "duplicated_sub_resource name add (map fst ires) = Some (DuplicateSubResource name k)"
      using duplicated_sub_resource_Some[OF assms(5) ov] by blast
    then show ?thesis using assms(4) by (auto simp: join_api_def)
  qed
  moreover have "join_api name init add = Inl (DuplicateCacheConfig name)"
    if "set (map fst ires) \<inter> set (map fst ares) = {}"
      "truthy (get init ''cluster_cache_configuration'')"
      "truthy (get add ''cluster_cache_configuration'')"
    using that assms(4) duplicated_sub_resource_None[OF assms(5) that(1)]
    by (simp add: join_api_def)
  ultimately show ?thesis using r by simp
qed

theorem sub_resource_and_cache_errors_witness:
  "check_duplicated_resources example_constants [(''api'', JObj example_api_existing)] ''api''
     example_api_clash = Inl (DuplicateSubResource ''api'' ''/a'') \<and>
   check_duplicated_resources example_constants [(''api'', JObj example_api_existing)] ''api''
     (setitem example_api_incoming ''cluster_cache_configuration'' (JObj [(''cache_size'', JNum 2)])) =
     Inl (DuplicateCacheConfig ''api'')"
  using
    sub_resource_and_cache_errors [of "[(''api'', JObj example_api_existing)]" "''api''"
      example_api_existing example_constants example_api_clash
      "[(''/a'', JObj [])]" "[(''/a'', JObj [])]"]
    sub_resource_and_cache_errors [of "[(''api'', JObj example_api_existing)]" "''api''"
      example_api_existing example_constants
      "setitem example_api_incoming ''cluster_cache_configuration'' (JObj [(''cache_size'', JNum 2)])"
      "[(''/a'', JObj [])]" "[(''/b'', JObj [])]"]
  by (simp add: example_api_existing_def example_api_clash_def example_api_incoming_def
      example_constants_def get_def)

section \<open>Scanning the project: properties\<close>

lemma setitem_keys: "k \<in> fst ` set d \<Longrightarrow> map fst (setitem d k v) = map fst d"
  by (induction d) auto

text \<open>
  C7. When the entry already stored under the name and the incoming entry have
  different types, the collision handler returns None and raises nothing, and the
  caller stores the incoming entry (with its derived attribute) under the name: the
  earlier entry is gone, every other name keeps its entry, and the name keeps its place
  in the manifest.
\<close>

theorem different_types_overwrite:
  assumes "map_of resources_meta name = Some (JObj init)"
    and "map_of init ''resource_type'' = Some (JStr t)"
    and "populate_s3_path c resource bundle_name = Inr resource'"
    and "map_of resource' ''resource_type'' = Some (JStr t')"
    and "t' \<noteq> t"
  shows "check_duplicated_resources c resources_meta name resource' = Inr None \<and>
         store_resource c bundle_name resources_meta name resource =
           (None, setitem resources_meta name (JObj resource')) \<and>
         map_of (setitem resources_meta name (JObj resource')) name = Some (JObj resource') \<and>
         (\<forall>k. k \<noteq> name \<longrightarrow>
            map_of (setitem resources_meta name (JObj resource')) k = map_of resources_meta k) \<and>
         map fst (setitem resources_meta name (JObj resource')) = map fst resources_meta"
proof -
  have r: "check_duplicated_resources c resources_meta name resource' = Inr None"
    using assms truthy_init[OF assms(2)] by (auto simp: check_duplicated_resources_def)
  have "name \<in> fst ` set resources_meta"
    using assms(1) by (metis domI dom_map_of_conv_image_fst)
  then show ?thesis
    using r assms(3) by (simp add: store_resource_def map_of_setitem setitem_keys)
qed

theorem different_types_overwrite_witness:
  "store_resource example_constants ''b1''
     [(''q'', JObj [(''resource_type'', JStr ''sqs_queue'')]), (''t'', JObj [(''resource_type'', JStr ''sns_topic'')])]
     ''q'' [(''resource_type'', JStr ''sns_topic''), (''region'', JStr ''eu'')] =
     (None, [(''q'', JObj [(''resource_type'', JStr ''sns_topic''), (''region'', JStr ''eu'')]),
             (''t'', JObj [(''resource_type'', JStr ''sns_topic'')])])"
  using different_types_overwrite [of
      "[(''q'', JObj [(''resource_type'', JStr ''sqs_queue'')]), (''t'', JObj [(''resource_type'', JStr ''sns_topic'')])]"
      "''q''" "[(''resource_type'', JStr ''sqs_queue'')]" "''sqs_queue''" example_constants
      "[(''resource_type'', JStr ''sns_topic''), (''region'', JStr ''eu'')]" "''b1''"
      "[(''resource_type'', JStr ''sns_topic''), (''region'', JStr ''eu'')]" "''sns_topic''"]
  by (simp add: populate_s3_path_def example_constants_def get_def)

text \<open>What a call writes, stage by stage of the handler on the store: every write goes
  to the incoming object, and an error raised after a write is none of the collision
  errors.\<close>

lemma same_except_refl: "same_except st st a"
  by (simp add: same_except_def)

lemma same_except_trans:
  "same_except st st' a \<Longrightarrow> same_except st' st'' a \<Longrightarrow> same_except st st'' a"
  by (simp add: same_except_def)

lemma same_except_write_item: "same_except st (write_item st a k v) a"
  by (simp add: same_except_def write_item_def)

lemma getitem_error: "getitem v k = Inl e \<Longrightarrow> \<not> collision_error e"
  by (cases v) (auto split: option.splits)

lemma py_iter_error: "py_iter v = Inl e \<Longrightarrow> \<not> collision_error e"
  by (cases v) auto

lemma py_add_error: "py_add v w = Inl e \<Longrightarrow> \<not> collision_error e"
  by (cases "(v, w)" rule: py_add.cases) (auto split: option.splits)

lemma dependency_names_error: "dependency_names xs = Inl e \<Longrightarrow> \<not> collision_error e"
proof (induction xs)
  case Nil
  then show ?case by simp
next
  case (Cons x xs)
  then show ?case
    by (auto split: sum.splits if_splits dest: getitem_error)
qed

lemma append_missing_on_effect:
  "append_missing_on names elems st a = (r, st') \<Longrightarrow>
   same_except st st' a \<and> (\<forall>e. r = Some e \<longrightarrow> \<not> collision_error e)"
proof (induction elems arbitrary: st)
  case Nil
  then show ?case by (simp add: same_except_refl)
next
  case (Cons each rest)
  show ?case
  proof (cases "getitem each ''resource_name''")
    case (Inl e)
    then show ?thesis using Cons.prems by (auto simp: same_except_refl dest: getitem_error)
  next
    case (Inr n)
    show ?thesis
    proof (cases "\<not> hashable n \<or> py_in n names")
      case True
      show ?thesis
      proof (cases "hashable n")
        case False
        then show ?thesis using Cons.prems Inr by (auto simp: same_except_refl)
      next
        case h: True
        then have "append_missing_on names rest st a = (r, st')"
          using Cons.prems Inr True by simp
        then show ?thesis by (rule Cons.IH)
      qed
    next
      case False
      show ?thesis
      proof (cases "getitem (heap st a) ''dependencies''")
        case (Inl e)
        then show ?thesis using Cons.prems Inr False
          by (auto simp: same_except_refl dest: getitem_error)
      next
        case deps: (Inr v)
        show ?thesis
        proof (cases v)
          case (JList ds)
          let ?st = "write_item st a ''dependencies'' (JList (ds @ [each]))"
          have "append_missing_on names rest ?st a = (r, st')"
            using Cons.prems Inr False deps JList by simp
          from Cons.IH[OF this] show ?thesis
            using same_except_trans[OF same_except_write_item] by blast
        qed (use Cons.prems Inr False deps in \<open>auto simp: same_except_refl\<close>)
      qed
    qed
  qed
qed

lemma join_dependencies_on_effect:
  "join_dependencies_on st i a = (r, st') \<Longrightarrow>
   same_except st st' a \<and> (\<forall>e. r = Some e \<longrightarrow> \<not> collision_error e)"
  unfolding join_dependencies_on_def
  by (auto simp: same_except_refl split: sum.splits
      dest: getitem_error py_iter_error dependency_names_error append_missing_on_effect)

lemma join_resources_on_effect:
  "join_resources_on st i a = (r, st') \<Longrightarrow>
   same_except st st' a \<and> (\<forall>e. r = Some e \<longrightarrow> \<not> collision_error e)"
  unfolding join_resources_on_def
  by (auto simp: same_except_refl same_except_write_item split: sum.splits json.splits
      dest: getitem_error)

lemma join_stage_and_changes_on_effect:
  "join_stage_and_changes_on st i a = (r, st') \<Longrightarrow>
   same_except st st' a \<and> (\<forall>e. r = Some e \<longrightarrow> \<not> collision_error e)"
  unfolding join_stage_and_changes_on_def Let_def
  by (auto simp: same_except_refl same_except_write_item split: sum.splits if_splits
      dest: py_add_error intro: same_except_trans[OF same_except_write_item same_except_write_item])

lemma join_api_on_effect:
  assumes "join_api_on st name i a = (r, st')"
  shows "same_except st st' a \<and> (\<forall>e. r = Inl e \<and> collision_error e \<longrightarrow> st' = st)"
proof (cases "getitem (heap st i) ''resources''")
  case (Inl e)
  then show ?thesis using assms by (auto simp: join_api_on_def same_except_refl)
next
  case res: (Inr v)
  show ?thesis
  proof (cases v)
    case (JObj ires)
    show ?thesis
    proof (cases "duplicated_sub_resource name (items_of (heap st a)) (map fst ires)")
      case (Some e)
      then show ?thesis using assms res JObj by (auto simp: join_api_on_def same_except_refl)
    next
      case None
      let ?icc = "get (items_of (heap st i)) ''cluster_cache_configuration''"
      let ?acc = "get (items_of (heap st a)) ''cluster_cache_configuration''"
      show ?thesis
      proof (cases "truthy ?icc \<and> truthy ?acc")
        case True
        then show ?thesis using assms res JObj None
          by (auto simp: join_api_on_def same_except_refl)
      next
        case False
        define st1 where "st1 = (if truthy ?icc
            then write_item st a ''cluster_cache_configuration'' ?icc else st)"
        have f1: "same_except st st1 a"
          by (simp add: st1_def same_except_refl same_except_write_item)
        obtain r2 st2 where j2: "join_dependencies_on st1 i a = (r2, st2)" by force
        note e2 = join_dependencies_on_effect[OF j2]
        show ?thesis
        proof (cases r2)
          case (Some e)
          then have "r = Inl e" "st' = st2"
            using assms res JObj None False j2
            by (auto simp: join_api_on_def Let_def st1_def[symmetric])
          then show ?thesis using e2 f1 Some same_except_trans by blast
        next
          case n2: None
          obtain r3 st3 where j3: "join_resources_on st2 i a = (r3, st3)" by force
          note e3 = join_resources_on_effect[OF j3]
          have f3: "same_except st st3 a" using f1 e2 e3 same_except_trans by blast
          show ?thesis
          proof (cases r3)
            case (Some e)
            then have "r = Inl e" "st' = st3"
              using assms res JObj None False j2 n2 j3
              by (auto simp: join_api_on_def Let_def st1_def[symmetric])
            then show ?thesis using e3 f3 Some by blast
          next
            case n3: None
            obtain r4 st4 where j4: "join_stage_and_changes_on st3 i a = (r4, st4)" by force
            note e4 = join_stage_and_changes_on_effect[OF j4]
            have f4: "same_except st st4 a" using f3 e4 same_except_trans by blast
            show ?thesis
            proof (cases r4)
              case (Some e)
              then have "r = Inl e" "st' = st4"
                using assms res JObj None False j2 n2 j3 n3 j4
                by (auto simp: join_api_on_def Let_def st1_def[symmetric])
              then show ?thesis using e4 f4 Some by blast
            next
              case n4: None
              then have "r = Inr (Some a)" "st' = st4"
                using assms res JObj None False j2 n2 j3 n3 j4
                by (auto simp: join_api_on_def Let_def st1_def[symmetric])
              then show ?thesis using f4 by blast
            qed
          qed
        qed
      qed
    qed
  qed (use assms res in \<open>auto simp: join_api_on_def same_except_refl\<close>)
qed

lemma check_duplicated_resources_on_effect:
  assumes "check_duplicated_resources_on c st name a = (r, st')"
  shows "same_except st st' a \<and> (\<forall>e. r = Inl e \<and> collision_error e \<longrightarrow> st' = st)"
proof (cases "map_of (resources_meta_on st) name")
  case None
  then show ?thesis using assms by (auto simp: check_duplicated_resources_on_def same_except_refl)
next
  case (Some i)
  show ?thesis
  proof (cases "getitem (heap st a) ''resource_type''")
    case (Inl e)
    then show ?thesis using assms Some
      by (auto simp: check_duplicated_resources_on_def same_except_refl)
  next
    case at: (Inr additional_type)
    show ?thesis
    proof (cases "truthy (heap st i)")
      case False
      then show ?thesis using assms Some at
        by (auto simp: check_duplicated_resources_on_def same_except_refl)
    next
      case True
      show ?thesis
      proof (cases "getitem (heap st i) ''resource_type''")
        case (Inl e)
        then show ?thesis using assms Some at True
          by (auto simp: check_duplicated_resources_on_def same_except_refl)
      next
        case it: (Inr initial_type)
        show ?thesis
        proof (cases "py_eq additional_type initial_type \<and>
                      py_eq initial_type (JStr (API_GATEWAY_TYPE c))")
          case api: True
          then have "join_api_on st name i a = (r, st')"
            using assms Some at True it by (simp add: check_duplicated_resources_on_def)
          then show ?thesis by (rule join_api_on_effect)
        next
          case False
          then show ?thesis using assms Some at True it
            by (auto simp: check_duplicated_resources_on_def same_except_refl split: if_splits)
        qed
      qed
    qed
  qed
qed

lemma contents_same:
  assumes "allocated st" "resources_meta_on st' = resources_meta_on st"
    and "\<forall>a. a < next_addr st \<longrightarrow> heap st' a = heap st a"
  shows "contents st' = contents st"
  using assms by (auto simp: contents_def allocated_def list_all_iff)

text \<open>The merged entry the handler returns is the incoming object, so storing a
  descriptor keeps the state well allocated.\<close>

lemma join_api_on_result:
  "join_api_on st name i a = (Inr (Some r), st') \<Longrightarrow> r = a"
  unfolding join_api_on_def Let_def
  by (auto split: sum.splits json.splits option.splits if_splits prod.splits)

lemma check_duplicated_resources_on_result:
  "check_duplicated_resources_on c st name a = (Inr (Some r), st') \<Longrightarrow> r = a"
  unfolding check_duplicated_resources_on_def
  by (auto split: sum.splits option.splits if_splits dest: join_api_on_result)

lemma list_all_setitem:
  "list_all P d \<Longrightarrow> P (k, v) \<Longrightarrow> list_all P (setitem d k v)"
  by (induction d) auto

lemma store_resource_on_allocated:
  assumes "allocated st"
    and "store_resource_on c bundle_name st resource_name resource = (r, st')"
  shows "allocated st'"
proof -
  let ?a = "next_addr st"
  let ?st0 = "st\<lparr>heap := (heap st)(?a := JObj resource), next_addr := Suc ?a\<rparr>"
  have a0: "list_all (\<lambda>(name, a). a < Suc ?a) (resources_meta_on st)"
    using assms(1) by (auto simp: allocated_def list_all_iff)
  show ?thesis
  proof (cases "populate_s3_path c resource bundle_name")
    case (Inl e)
    then have "st' = ?st0" using assms(2) by (auto simp: store_resource_on_def Let_def)
    then show ?thesis using a0 by (simp add: allocated_def)
  next
    case (Inr resource')
    let ?st1 = "?st0\<lparr>heap := (heap ?st0)(?a := JObj resource')\<rparr>"
    obtain r2 st2 where h: "check_duplicated_resources_on c ?st1 resource_name ?a = (r2, st2)"
      by force
    note eff = check_duplicated_resources_on_effect[OF h]
    have m: "resources_meta_on st2 = resources_meta_on st" "next_addr st2 = Suc ?a"
      using eff by (simp_all add: same_except_def)
    show ?thesis
    proof (cases r2)
      case (Inl e)
      then have "st' = st2" using assms(2) Inr h by (simp add: store_resource_on_def Let_def)
      then show ?thesis using a0 m by (simp add: allocated_def)
    next
      case res: (Inr res)
      have t: "(case res of None \<Rightarrow> ?a | Some r \<Rightarrow> if truthy (heap st2 r) then r else ?a) = ?a"
        using check_duplicated_resources_on_result[of c ?st1 resource_name ?a _ st2] h res
        by (cases res) auto
      have "st' = st2\<lparr>resources_meta_on := setitem (resources_meta_on st2) resource_name ?a\<rparr>"
        using assms(2) Inr h res t by (simp add: store_resource_on_def Let_def)
      moreover have "list_all (\<lambda>(name, a). a < Suc ?a) (setitem (resources_meta_on st) resource_name ?a)"
        using a0 by (rule list_all_setitem) simp
      ultimately show ?thesis using m by (simp add: allocated_def)
    qed
  qed
qed

text \<open>
  The model on the store and the model by value agree. Stage by stage, the object at
  the incoming entry's address ends as the value the model by value computes, with the
  same error if there is one; so the handler, the storing of a descriptor and the whole
  scan of a directory, run on a well allocated state, do to what the manifest holds
  what the model by value does to the manifest.
\<close>

lemma setitem_same: "map_of d k = Some v \<Longrightarrow> setitem d k v = d"
  by (induction d) (auto split: if_splits)

lemma setitem_twice: "setitem (setitem d k v) k w = setitem d k w"
  by (induction d) auto

lemma append_missing_on_value:
  assumes "heap st a = JObj item" and "map_of item ''dependencies'' = Some deps"
    and "append_missing_on names elems st a = (r, st')"
  shows "(\<forall>e. r = Some e \<longrightarrow> append_missing names elems deps = Inl e) \<and>
         (r = None \<longrightarrow> (\<exists>deps'. append_missing names elems deps = Inr deps' \<and>
                      heap st' a = JObj (setitem item ''dependencies'' deps')))"
  using assms
proof (induction elems arbitrary: st item deps)
  case Nil
  then show ?case by (simp add: setitem_same)
next
  case (Cons each rest)
  show ?case
  proof (cases "getitem each ''resource_name''")
    case (Inl e)
    then show ?thesis using Cons.prems by auto
  next
    case (Inr n)
    show ?thesis
    proof (cases "hashable n")
      case False
      then show ?thesis using Cons.prems Inr by auto
    next
      case h: True
      show ?thesis
      proof (cases "py_in n names")
        case True
        then have "append_missing_on names rest st a = (r, st')"
          using Cons.prems Inr h by simp
        from Cons.IH[OF Cons.prems(1,2) this] show ?thesis
          using Inr h True by simp
      next
        case False
        show ?thesis
        proof (cases deps)
          case (JList ds)
          let ?st = "write_item st a ''dependencies'' (JList (ds @ [each]))"
          let ?item = "setitem item ''dependencies'' (JList (ds @ [each]))"
          have s: "append_missing_on names rest ?st a = (r, st')"
            using Cons.prems Inr h False JList by simp
          have h1: "heap ?st a = JObj ?item"
            using Cons.prems(1) by (simp add: write_item_def items_of_def)
          have h2: "map_of ?item ''dependencies'' = Some (JList (ds @ [each]))"
            by (simp add: map_of_setitem)
          from Cons.IH[OF h1 h2 s] show ?thesis
            using Inr h False JList by (simp add: setitem_twice)
        qed (use Cons.prems Inr h False in \<open>auto\<close>)
      qed
    qed
  qed
qed


lemma join_dependencies_on_value:
  assumes "heap st a = JObj add" and "heap st i = JObj init"
    and "join_dependencies_on st i a = (r, st')"
  shows "(\<forall>e. r = Some e \<longrightarrow> join_dependencies init add = Inl e) \<and>
         (r = None \<longrightarrow> (\<exists>item. join_dependencies init add = Inr item \<and> heap st' a = JObj item))"
proof (cases "map_of add ''dependencies''")
  case None
  then show ?thesis using assms by (auto simp: join_dependencies_on_def join_dependencies_def)
next
  case (Some deps)
  show ?thesis
  proof (cases "py_iter deps")
    case (Inl e)
    then show ?thesis using assms Some
      by (auto simp: join_dependencies_on_def join_dependencies_def)
  next
    case ae: (Inr additional_elems)
    show ?thesis
    proof (cases "dependency_names additional_elems")
      case (Inl e)
      then show ?thesis using assms Some ae
        by (auto simp: join_dependencies_on_def join_dependencies_def)
    next
      case nm: (Inr names)
      show ?thesis
      proof (cases "getitem (JObj init) ''dependencies''")
        case (Inl e)
        then show ?thesis using assms Some ae nm
          by (auto simp: join_dependencies_on_def join_dependencies_def)
      next
        case idp: (Inr initial_deps)
        show ?thesis
        proof (cases "py_iter initial_deps")
          case (Inl e)
          then show ?thesis using assms Some ae nm idp
            by (auto simp: join_dependencies_on_def join_dependencies_def)
        next
          case ie: (Inr initial_elems)
          have s: "append_missing_on names initial_elems st a = (r, st')"
            using assms Some ae nm idp ie by (simp add: join_dependencies_on_def)
          note v = append_missing_on_value[OF assms(1) Some s]
          show ?thesis
          proof (cases r)
            case None
            then obtain deps' where "append_missing names initial_elems deps = Inr deps'"
              "heap st' a = JObj (setitem add ''dependencies'' deps')"
              using v by blast
            then show ?thesis using None Some ae nm idp ie
              by (simp add: join_dependencies_def)
          next
            case (Some e)
            then have "append_missing names initial_elems deps = Inl e" using v by blast
            then show ?thesis using Some \<open>map_of add ''dependencies'' = Some deps\<close> ae nm idp ie
              by (simp add: join_dependencies_def)
          qed
        qed
      qed
    qed
  qed
qed

lemma join_resources_on_value:
  assumes "heap st a = JObj add" and "getitem (heap st i) ''resources'' = Inr (JObj initial_resources)"
    and "join_resources_on st i a = (r, st')"
  shows "(\<forall>e. r = Some e \<longrightarrow> join_resources initial_resources add = Inl e) \<and>
         (r = None \<longrightarrow> (\<exists>item. join_resources initial_resources add = Inr item \<and>
                          heap st' a = JObj item))"
  using assms
  by (auto simp: join_resources_on_def join_resources_def write_item_def items_of_def
      split: option.splits json.splits)

lemma join_stage_and_changes_on_value:
  assumes "heap st a = JObj add" and "heap st i = JObj init" and "i \<noteq> a"
    and "join_stage_and_changes_on st i a = (r, st')"
  shows "(\<forall>e. r = Some e \<longrightarrow> join_stage_and_changes init add = Inl e) \<and>
         (r = None \<longrightarrow> (\<exists>item. join_stage_and_changes init add = Inr item \<and>
                          heap st' a = JObj item))"
  using assms
  by (auto simp: join_stage_and_changes_on_def join_stage_and_changes_def write_item_def
      items_of_def Let_def split: sum.splits if_splits)

lemma join_api_on_value:
  assumes a: "heap st a = JObj add" and i: "heap st i = JObj init" and ne: "i \<noteq> a"
    and j: "join_api_on st name i a = (r, st')"
  shows "join_api name init add = map_sum id (map_option (heap st')) r"
proof (cases "getitem (JObj init) ''resources''")
  case (Inl e)
  then show ?thesis using assms by (auto simp: join_api_on_def join_api_def)
next
  case res: (Inr v)
  show ?thesis
  proof (cases v)
    case (JObj ires)
    show ?thesis
    proof (cases "duplicated_sub_resource name add (map fst ires)")
      case (Some e)
      then show ?thesis using assms res JObj
        by (auto simp: join_api_on_def join_api_def items_of_def)
    next
      case None
      let ?icc = "get init ''cluster_cache_configuration''"
      let ?acc = "get add ''cluster_cache_configuration''"
      show ?thesis
      proof (cases "truthy ?icc \<and> truthy ?acc")
        case True
        then show ?thesis using assms res JObj None
          by (auto simp: join_api_on_def join_api_def items_of_def)
      next
        case False
        define st1 where "st1 = (if truthy ?icc
            then write_item st a ''cluster_cache_configuration'' ?icc else st)"
        define add1 where "add1 = (if truthy ?icc
            then setitem add ''cluster_cache_configuration'' ?icc else add)"
        have a1: "heap st1 a = JObj add1"
          using a by (simp add: st1_def add1_def write_item_def items_of_def)
        have i1: "heap st1 i = JObj init"
          using i ne by (simp add: st1_def write_item_def)
        obtain r2 st2 where j2: "join_dependencies_on st1 i a = (r2, st2)" by force
        note v2 = join_dependencies_on_value[OF a1 i1 j2]
        have i2: "heap st2 i = JObj init"
          using join_dependencies_on_effect[OF j2] i1 ne by (simp add: same_except_def)
        have unf: "join_api_on st name i a =
            (case join_dependencies_on st1 i a of
               (Some e, s1) \<Rightarrow> (Inl e, s1)
             | (None, s1) \<Rightarrow>
                (case join_resources_on s1 i a of
                   (Some e, s2) \<Rightarrow> (Inl e, s2)
                 | (None, s2) \<Rightarrow>
                    (case join_stage_and_changes_on s2 i a of
                       (Some e, s3) \<Rightarrow> (Inl e, s3)
                     | (None, s3) \<Rightarrow> (Inr (Some a), s3))))"
          using a i res JObj None False
          by (auto simp: join_api_on_def Let_def st1_def items_of_def)
        have unfv: "join_api name init add =
            (case join_dependencies init add1 of
               Inl e \<Rightarrow> Inl e
             | Inr item \<Rightarrow>
                (case join_resources ires item of
                   Inl e \<Rightarrow> Inl e
                 | Inr item' \<Rightarrow>
                    (case join_stage_and_changes init item' of
                       Inl e \<Rightarrow> Inl e
                     | Inr item'' \<Rightarrow> Inr (Some (JObj item'')))))"
          using res JObj None False by (auto simp: join_api_def Let_def add1_def)
        show ?thesis
        proof (cases r2)
          case (Some e)
          then have "r = Inl e" using j unf j2 by simp
          moreover have "join_dependencies init add1 = Inl e" using v2 Some by blast
          ultimately show ?thesis using unfv by simp
        next
          case n2: None
          then obtain item where d2: "join_dependencies init add1 = Inr item"
            and a2: "heap st2 a = JObj item" using v2 by blast
          obtain r3 st3 where j3: "join_resources_on st2 i a = (r3, st3)" by force
          have g2: "getitem (heap st2 i) ''resources'' = Inr (JObj ires)"
            using i2 res JObj by simp
          note v3 = join_resources_on_value[OF a2 g2 j3]
          have i3: "heap st3 i = JObj init"
            using join_resources_on_effect[OF j3] i2 ne by (simp add: same_except_def)
          show ?thesis
          proof (cases r3)
            case (Some e)
            then have "r = Inl e" using j unf j2 n2 j3 by simp
            moreover have "join_resources ires item = Inl e" using v3 Some by blast
            ultimately show ?thesis using unfv d2 by simp
          next
            case n3: None
            then obtain item' where d3: "join_resources ires item = Inr item'"
              and a3: "heap st3 a = JObj item'" using v3 by blast
            obtain r4 st4 where j4: "join_stage_and_changes_on st3 i a = (r4, st4)" by force
            note v4 = join_stage_and_changes_on_value[OF a3 i3 ne j4]
            show ?thesis
            proof (cases r4)
              case (Some e)
              then have "r = Inl e" using j unf j2 n2 j3 n3 j4 by simp
              moreover have "join_stage_and_changes init item' = Inl e" using v4 Some by blast
              ultimately show ?thesis using unfv d2 d3 by simp
            next
              case n4: None
              then obtain item'' where d4: "join_stage_and_changes init item' = Inr item''"
                and a4: "heap st4 a = JObj item''" using v4 by blast
              have "r = Inr (Some a)" "st' = st4" using j unf j2 n2 j3 n3 j4 n4 by simp_all
              then show ?thesis using unfv d2 d3 d4 a4 by simp
            qed
          qed
        qed
      qed
    qed
  qed (use assms res in \<open>auto simp: join_api_on_def join_api_def\<close>)
qed

lemma map_of_contents:
  "map_of (contents st) name = map_option (heap st) (map_of (resources_meta_on st) name)"
  unfolding contents_def by (induction "resources_meta_on st" arbitrary: st) (auto simp: map_of_map)

lemma check_duplicated_resources_on_value:
  assumes a: "heap st a = JObj add" and fresh: "a \<notin> snd ` set (resources_meta_on st)"
    and h: "check_duplicated_resources_on c st name a = (r, st')"
  shows "check_duplicated_resources c (contents st) name add =
           map_sum id (map_option (heap st')) r"
proof (cases "map_of (resources_meta_on st) name")
  case None
  then show ?thesis using h
    by (auto simp: check_duplicated_resources_on_def check_duplicated_resources_def map_of_contents)
next
  case (Some i)
  then have "(name, i) \<in> set (resources_meta_on st)" by (rule map_of_SomeD)
  then have ne: "i \<noteq> a" using fresh by force
  show ?thesis
  proof (cases "getitem (JObj add) ''resource_type''")
    case (Inl e)
    then show ?thesis using h a Some
      by (auto simp: check_duplicated_resources_on_def check_duplicated_resources_def
          map_of_contents)
  next
    case at: (Inr additional_type)
    show ?thesis
    proof (cases "truthy (heap st i)")
      case False
      then show ?thesis using h a Some at
        by (auto simp: check_duplicated_resources_on_def check_duplicated_resources_def
            map_of_contents)
    next
      case True
      show ?thesis
      proof (cases "getitem (heap st i) ''resource_type''")
        case (Inl e)
        then show ?thesis using h a Some at True
          by (auto simp: check_duplicated_resources_on_def check_duplicated_resources_def
              map_of_contents)
      next
        case it: (Inr initial_type)
        then obtain init where i: "heap st i = JObj init"
          by (cases "heap st i") auto
        show ?thesis
        proof (cases "py_eq additional_type initial_type \<and>
                      py_eq initial_type (JStr (API_GATEWAY_TYPE c))")
          case api: True
          then have j: "join_api_on st name i a = (r, st')"
            using h a Some at True it by (simp add: check_duplicated_resources_on_def)
          have "check_duplicated_resources c (contents st) name add = join_api name init add"
            using a Some at True it i api
            by (simp add: check_duplicated_resources_def map_of_contents)
          then show ?thesis using join_api_on_value[OF a i ne j] by simp
        next
          case False
          then show ?thesis using h a Some at True it
            by (auto simp: check_duplicated_resources_on_def check_duplicated_resources_def
                map_of_contents split: if_splits)
        qed
      qed
    qed
  qed
qed

lemma check_duplicated_resources_on_none:
  "check_duplicated_resources_on c st name a = (Inr None, st') \<Longrightarrow> st' = st"
  unfolding check_duplicated_resources_on_def join_api_on_def Let_def
  by (auto split: sum.splits json.splits option.splits if_splits prod.splits)

lemma contents_setitem:
  assumes "\<forall>(n, b) \<in> set m. h' b = h b"
  shows "map (\<lambda>(n, b). (n, h' b)) (setitem m name a) =
         setitem (map (\<lambda>(n, b). (n, h b)) m) name (h' a)"
  using assms by (induction m) auto

lemma store_resource_on_value:
  assumes al: "allocated st"
    and s: "store_resource_on c bundle_name st name resource = (r, st')"
  shows "store_resource c bundle_name (contents st) name resource = (r, contents st')"
proof -
  let ?a = "next_addr st"
  let ?st0 = "st\<lparr>heap := (heap st)(?a := JObj resource), next_addr := Suc ?a\<rparr>"
  have lt: "\<forall>(n, b) \<in> set (resources_meta_on st). b < ?a"
    using al by (simp add: allocated_def list_all_iff)
  have c0: "contents st2 = contents st"
    if "resources_meta_on st2 = resources_meta_on st" "\<forall>b. b < ?a \<longrightarrow> heap st2 b = heap st b" for st2
    using that lt by (auto simp: contents_def)
  show ?thesis
  proof (cases "populate_s3_path c resource bundle_name")
    case (Inl e)
    then have "st' = ?st0" "r = Some e" using s by (auto simp: store_resource_on_def Let_def)
    then show ?thesis using Inl c0[of ?st0] by (simp add: store_resource_def)
  next
    case (Inr resource')
    let ?st1 = "?st0\<lparr>heap := (heap ?st0)(?a := JObj resource')\<rparr>"
    obtain r2 st2 where h: "check_duplicated_resources_on c ?st1 name ?a = (r2, st2)"
      by force
    note eff = check_duplicated_resources_on_effect[OF h]
    have m: "resources_meta_on st2 = resources_meta_on st"
      and f: "\<forall>b. b < ?a \<longrightarrow> heap st2 b = heap st b"
      using eff by (simp_all add: same_except_def)
    have c1: "contents ?st1 = contents st" by (rule c0) simp_all
    have fresh: "?a \<notin> snd ` set (resources_meta_on ?st1)" using lt by force
    have v: "check_duplicated_resources c (contents st) name resource' =
               map_sum id (map_option (heap st2)) r2"
      using check_duplicated_resources_on_value[OF _ fresh h, of resource'] c1 by simp
    have fm: "\<forall>(n, b) \<in> set (resources_meta_on st). heap st2 b = heap st b"
      using lt f by auto
    show ?thesis
    proof (cases r2)
      case (Inl e)
      then have "st' = st2" "r = Some e" using s Inr h by (simp_all add: store_resource_on_def Let_def)
      then show ?thesis using Inr v Inl c0[OF m f] by (simp add: store_resource_def)
    next
      case res: (Inr res)
      show ?thesis
      proof (cases res)
        case None
        then have e2: "st2 = ?st1" using check_duplicated_resources_on_none h res by blast
        have "st' = st2\<lparr>resources_meta_on := setitem (resources_meta_on st2) name ?a\<rparr>" "r = None"
          using s Inr h res None by (simp_all add: store_resource_on_def Let_def)
        then have "contents st' = setitem (contents st) name (heap st2 ?a)"
          using contents_setitem[OF fm, of name ?a] m by (simp add: contents_def)
        then show ?thesis using Inr v res None e2 \<open>r = None\<close> by (simp add: store_resource_def)
      next
        case (Some b)
        then have b: "b = ?a" using check_duplicated_resources_on_result h res by blast
        have "st' = st2\<lparr>resources_meta_on := setitem (resources_meta_on st2) name ?a\<rparr>" "r = None"
          using s Inr h res Some b by (simp_all add: store_resource_on_def Let_def)
        then have "contents st' = setitem (contents st) name (heap st2 ?a)"
          using contents_setitem[OF fm, of name ?a] m by (simp add: contents_def)
        then show ?thesis using Inr v res Some b \<open>r = None\<close> by (simp add: store_resource_def)
      qed
    qed
  qed
qed

lemma store_lambda_on_value:
  assumes "allocated st" and "store_lambda_on c bundle_name st lambda_conf = (r, st')"
  shows "store_lambda c bundle_name (contents st) lambda_conf = (r, contents st') \<and> allocated st'"
proof (cases "getitem lambda_conf ''name''")
  case (Inl e)
  then show ?thesis using assms by (auto simp: store_lambda_on_def store_lambda_def)
next
  case (Inr v)
  then obtain conf where c: "lambda_conf = JObj conf" by (cases lambda_conf) auto
  show ?thesis
  proof (cases v)
    case (JStr lambda_name)
    then have s: "store_resource_on c bundle_name st lambda_name conf = (r, st')"
      using assms(2) Inr c by (simp add: store_lambda_on_def)
    show ?thesis
      using store_resource_on_value[OF assms(1) s] store_resource_on_allocated[OF assms(1) s]
        Inr c JStr by (simp add: store_lambda_def)
  qed (use assms Inr in \<open>auto simp: store_lambda_on_def store_lambda_def\<close>)
qed

lemma store_deployment_resources_on_value:
  assumes "allocated st"
    and "store_deployment_resources_on c bundle_name st deployment_resources = (r, st')"
  shows "store_deployment_resources c bundle_name (contents st) deployment_resources =
           (r, contents st') \<and> allocated st'"
  using assms
proof (induction deployment_resources arbitrary: st)
  case Nil
  then show ?case by simp
next
  case (Cons p rest)
  obtain resource_name resource where p: "p = (resource_name, resource)" by force
  show ?case
  proof (cases resource)
    case (JObj res)
    show ?thesis
    proof (cases "map_of res ''resource_type''")
      case None
      then show ?thesis using Cons.prems p JObj by auto
    next
      case (Some resource_type)
      show ?thesis
      proof (cases "resource_type \<in> JStr ` set (RESOURCE_LIST c)")
        case False
        then show ?thesis using Cons.prems p JObj Some by auto
      next
        case True
        obtain r1 st1 where s1: "store_resource_on c bundle_name st resource_name res = (r1, st1)"
          by force
        note v1 = store_resource_on_value[OF Cons.prems(1) s1]
        note a1 = store_resource_on_allocated[OF Cons.prems(1) s1]
        show ?thesis
        proof (cases r1)
          case None
          then have "store_deployment_resources_on c bundle_name st1 rest = (r, st')"
            using Cons.prems(2) p JObj Some True s1 by simp
          from Cons.IH[OF a1 this] show ?thesis
            using p JObj Some True v1 None by simp
        next
          case (Some e)
          then have "r = Some e" "st' = st1"
            using Cons.prems(2) p JObj \<open>map_of res ''resource_type'' = Some resource_type\<close> True s1
            by simp_all
          then show ?thesis
            using p JObj \<open>map_of res ''resource_type'' = Some resource_type\<close> True v1 a1 Some
            by simp
        qed
      qed
    qed
  qed (use Cons.prems p in auto)
qed

lemma look_for_configs_on_value:
  assumes "allocated st" and "look_for_configs_on c nested_files st bundle_name = (r, st')"
  shows "look_for_configs c nested_files (contents st) bundle_name = (r, contents st') \<and>
         allocated st'"
  using assms
proof (induction nested_files arbitrary: st)
  case Nil
  then show ?case by simp
next
  case (Cons each nested_files)
  define step where "step = (case each of
              LambdaConfig lambda_conf \<Rightarrow> store_lambda_on c bundle_name st lambda_conf
            | DeploymentResources deployment_resources \<Rightarrow>
                store_deployment_resources_on c bundle_name st deployment_resources
            | OtherFile \<Rightarrow> (None, st))"
  define vstep where "vstep = (case each of
              LambdaConfig lambda_conf \<Rightarrow> store_lambda c bundle_name (contents st) lambda_conf
            | DeploymentResources deployment_resources \<Rightarrow>
                store_deployment_resources c bundle_name (contents st) deployment_resources
            | OtherFile \<Rightarrow> (None, contents st))"
  obtain r1 st1 where s1: "step = (r1, st1)" by force
  have v1: "vstep = (r1, contents st1) \<and> allocated st1"
  proof (cases each)
    case (LambdaConfig lambda_conf)
    then have "store_lambda_on c bundle_name st lambda_conf = (r1, st1)"
      using s1 by (simp add: step_def)
    from store_lambda_on_value[OF Cons.prems(1) this] show ?thesis
      using LambdaConfig by (simp add: vstep_def)
  next
    case (DeploymentResources deployment_resources)
    then have "store_deployment_resources_on c bundle_name st deployment_resources = (r1, st1)"
      using s1 by (simp add: step_def)
    from store_deployment_resources_on_value[OF Cons.prems(1) this] show ?thesis
      using DeploymentResources by (simp add: vstep_def)
  next
    case OtherFile
    then show ?thesis using s1 Cons.prems(1) by (auto simp: step_def vstep_def)
  qed
  show ?case
  proof (cases r1)
    case None
    then have "look_for_configs_on c nested_files st1 bundle_name = (r, st')"
      using Cons.prems(2) s1 by (simp add: step_def[symmetric])
    from Cons.IH[OF _ this] v1 show ?thesis
      using None by (simp add: vstep_def[symmetric])
  next
    case (Some e)
    then have "r = Some e" "st' = st1"
      using Cons.prems(2) s1 by (simp_all add: step_def[symmetric])
    then show ?thesis using v1 Some by (simp add: vstep_def[symmetric])
  qed
qed

text \<open>
  C10. When storing a loaded descriptor ends with an error, the manifest still binds
  the names it bound to the objects it bound them to, and none of the objects that
  existed before the step has been written to, so the manifest holds what it held. For
  each of the four collision errors the handler has written nothing at all: the state
  is the one the step started from, plus the incoming object with its derived
  attribute, which no name is bound to. This is so in either branch of
  \<^verbatim>\<open>_look_for_configs\<close>, whose scan ends there with that state. The state stays well
  allocated, and the model by value, run on what the manifest holds, ends with the same
  error and the manifest it started from.
\<close>

theorem collision_error_leaves_manifest:
  assumes "allocated st"
    and "store_resource_on c bundle_name st name resource = (Some e, st')"
  shows "resources_meta_on st' = resources_meta_on st \<and>
         (\<forall>a. a < next_addr st \<longrightarrow> heap st' a = heap st a) \<and>
         contents st' = contents st \<and>
         (collision_error e \<longrightarrow>
            (\<exists>resource'. populate_s3_path c resource bundle_name = Inr resource' \<and>
               st' = st\<lparr>heap := (heap st)(next_addr st := JObj resource'),
                        next_addr := Suc (next_addr st)\<rparr>)) \<and>
         (map_of resource ''name'' = Some (JStr name) \<longrightarrow>
            look_for_configs_on c (LambdaConfig (JObj resource) # nested_files) st bundle_name =
              (Some e, st')) \<and>
         (\<forall>t. map_of resource ''resource_type'' = Some (JStr t) \<and> t \<in> set (RESOURCE_LIST c) \<longrightarrow>
            look_for_configs_on c
                (DeploymentResources ((name, JObj resource) # rest) # nested_files) st bundle_name =
              (Some e, st')) \<and>
         allocated st' \<and>
         store_resource c bundle_name (contents st) name resource = (Some e, contents st)"
proof -
  let ?a = "next_addr st"
  let ?st0 = "st\<lparr>heap := (heap st)(?a := JObj resource), next_addr := Suc ?a\<rparr>"
  have goal: "resources_meta_on st' = resources_meta_on st \<and>
         (\<forall>a. a < next_addr st \<longrightarrow> heap st' a = heap st a) \<and>
         (collision_error e \<longrightarrow>
            (\<exists>resource'. populate_s3_path c resource bundle_name = Inr resource' \<and>
               st' = st\<lparr>heap := (heap st)(next_addr st := JObj resource'),
                        next_addr := Suc (next_addr st)\<rparr>))"
  proof (cases "populate_s3_path c resource bundle_name")
    case (Inl e')
    then have "st' = ?st0" "e = e'"
      using assms(2) by (auto simp: store_resource_on_def Let_def)
    moreover have "\<not> collision_error e'"
      using Inl
      by (auto simp: populate_s3_path_def populate_s3_path_ebs_def populate_s3_path_lambda_def
          populate_s3_path_python_def populate_s3_path_java_def Let_def
          split: if_splits json.splits sum.splits
          elim!: build_path.elims build_py_package_name.elims)
    ultimately show ?thesis by simp
  next
    case (Inr resource')
    let ?st1 = "?st0\<lparr>heap := (heap ?st0)(?a := JObj resource')\<rparr>"
    obtain r st2 where h: "check_duplicated_resources_on c ?st1 name ?a = (r, st2)"
      by force
    then have r: "r = Inl e" "st' = st2"
      using assms(2) Inr by (auto simp: store_resource_on_def Let_def split: sum.splits)
    note eff = check_duplicated_resources_on_effect[OF h]
    have "resources_meta_on st2 = resources_meta_on st"
      using eff by (simp add: same_except_def)
    moreover have "heap st2 a = heap st a" if "a < ?a" for a
      using eff that by (simp add: same_except_def)
    moreover have "st2 = ?st1" if "collision_error e"
      using eff r that by simp
    moreover have "?st1 = st\<lparr>heap := (heap st)(?a := JObj resource'), next_addr := Suc ?a\<rparr>"
      by simp
    ultimately show ?thesis using r Inr by simp
  qed
  then have core: "resources_meta_on st' = resources_meta_on st \<and>
         (\<forall>a. a < next_addr st \<longrightarrow> heap st' a = heap st a) \<and>
         contents st' = contents st \<and>
         (collision_error e \<longrightarrow>
            (\<exists>resource'. populate_s3_path c resource bundle_name = Inr resource' \<and>
               st' = st\<lparr>heap := (heap st)(next_addr st := JObj resource'),
                        next_addr := Suc (next_addr st)\<rparr>))"
    using contents_same[OF assms(1)] by blast
  have l: "look_for_configs_on c (LambdaConfig (JObj resource) # nested_files) st bundle_name =
              (Some e, st')"
    if "map_of resource ''name'' = Some (JStr name)"
    using that assms(2) by (simp add: store_lambda_on_def)
  have d: "look_for_configs_on c
                (DeploymentResources ((name, JObj resource) # rest) # nested_files) st bundle_name =
              (Some e, st')"
    if "map_of resource ''resource_type'' = Some (JStr t)" "t \<in> set (RESOURCE_LIST c)" for t
    using that assms(2) by auto
  have v: "store_resource c bundle_name (contents st) name resource = (Some e, contents st)"
    using store_resource_on_value[OF assms] core by simp
  show ?thesis using core l d v store_resource_on_allocated[OF assms] by blast
qed

theorem collision_error_leaves_manifest_witness:
  "allocated example_state \<and>
   fst (store_resource_on example_constants ''b1'' example_state ''q''
          [(''resource_type'', JStr ''sqs_queue''), (''region'', JStr ''us'')]) =
     Some (ConflictingResource ''q''
             (JObj [(''resource_type'', JStr ''sqs_queue''), (''region'', JStr ''eu'')])
             (JObj [(''resource_type'', JStr ''sqs_queue''), (''region'', JStr ''us'')])) \<and>
   contents (snd (store_resource_on example_constants ''b1'' example_state ''q''
                    [(''resource_type'', JStr ''sqs_queue''), (''region'', JStr ''us'')])) =
     [(''q'', JObj [(''resource_type'', JStr ''sqs_queue''), (''region'', JStr ''eu'')])] \<and>
   snd (store_resource_on example_constants ''b1'' example_state ''q''
          [(''resource_type'', JStr ''sqs_queue''), (''region'', JStr ''us'')]) =
     example_state\<lparr>heap := (heap example_state)
                       (1 := JObj [(''resource_type'', JStr ''sqs_queue''), (''region'', JStr ''us'')]),
                   next_addr := 2\<rparr>"
proof -
  let ?r = "[(''resource_type'', JStr ''sqs_queue''), (''region'', JStr ''us'')]"
  let ?e = "ConflictingResource ''q''
              (JObj [(''resource_type'', JStr ''sqs_queue''), (''region'', JStr ''eu'')])
              (JObj [(''resource_type'', JStr ''sqs_queue''), (''region'', JStr ''us'')])"
  have a: "allocated example_state"
    by (simp add: allocated_def example_state_def)
  have p: "populate_s3_path example_constants ?r ''b1'' = Inr ?r"
    by (simp add: populate_s3_path_def example_constants_def get_def)
  have f: "fst (store_resource_on example_constants ''b1'' example_state ''q'' ?r) = Some ?e"
    by (simp add: store_resource_on_def check_duplicated_resources_on_def populate_s3_path_def
        get_def Let_def example_state_def example_constants_def)
  obtain st' where s: "store_resource_on example_constants ''b1'' example_state ''q'' ?r = (Some ?e, st')"
    using f by (cases "store_resource_on example_constants ''b1'' example_state ''q'' ?r") simp
  note t = collision_error_leaves_manifest [OF a s]
  have c: "contents st' = [(''q'', JObj [(''resource_type'', JStr ''sqs_queue''), (''region'', JStr ''eu'')])]"
    using t by (simp add: contents_def example_state_def)
  have n: "next_addr example_state = 1" by (simp add: example_state_def)
  have "st' = example_state\<lparr>heap := (heap example_state)(1 := JObj ?r), next_addr := 2\<rparr>"
    using t p n by simp
  then show ?thesis using a f c s by simp
qed

section \<open>The dependency check: properties\<close>

lemma py_eq_JStr_right: "py_eq v (JStr s) = (v = JStr s)"
  by (cases v) (auto split: json.splits)

lemma py_in_keys: "py_in v (map JStr keys) = (v \<in> JStr ` set keys)"
  by (induction keys) (auto simp: py_in_def py_eq_JStr_right)

lemma dep_name_dict: "dep_name (JObj d) = get d ''resource_name''"
  by (simp add: dep_name_def get_def split: option.splits)

lemma missing_dependency_None:
  "missing_dependency keys ds = None \<Longrightarrow> list_all (\<lambda>d. dep_name d \<in> JStr ` set keys) ds"
  by (induction ds) (auto simp: py_in_keys dep_name_dict Let_def split: json.splits if_splits)

lemma missing_dependency_closed:
  "list_all is_dict ds \<Longrightarrow> list_all (\<lambda>d. dep_name d \<in> JStr ` set keys) ds \<Longrightarrow>
   missing_dependency keys ds = None"
  by (induction ds) (auto simp: py_in_keys dep_name_dict Let_def is_dict_def split: json.splits)

lemma missing_dependency_Some:
  "list_all is_dict ds \<Longrightarrow> \<not> list_all (\<lambda>d. dep_name d \<in> JStr ` set keys) ds \<Longrightarrow>
   \<exists>d \<in> set ds. dep_name d \<notin> JStr ` set keys \<and>
     missing_dependency keys ds = Some (UnresolvedDependency (dep_name d))"
  by (induction ds) (auto simp: py_in_keys dep_name_dict Let_def is_dict_def split: json.splits)

lemma check_dependencies_None:
  "check_dependencies keys m = None \<Longrightarrow>
   list_all (\<lambda>(name, entry).
      list_all (\<lambda>d. dep_name d \<in> JStr ` set keys) (dependencies_of entry)) m"
proof (induction m)
  case Nil
  then show ?case by simp
next
  case (Cons p m)
  obtain name entry where p: "p = (name, entry)" by (cases p)
  from Cons.prems p obtain e where e: "entry = JObj e"
    by (cases entry) auto
  have rest: "check_dependencies keys m = None"
    using Cons.prems p e by (auto simp: Let_def split: if_splits sum.splits option.splits)
  have "list_all (\<lambda>d. dep_name d \<in> JStr ` set keys) (dependencies_of entry)"
  proof (cases "get e ''dependencies''")
    case (JList ds)
    then have ds: "dependencies_of entry = ds"
      by (auto simp: dependencies_of_def e get_def split: option.splits)
    show ?thesis
    proof (cases "ds = []")
      case True
      then show ?thesis using ds by simp
    next
      case False
      then have "missing_dependency keys ds = None"
        using Cons.prems p e JList by (auto simp: Let_def split: option.splits)
      then show ?thesis using ds missing_dependency_None by simp
    qed
  qed (auto simp: dependencies_of_def e get_def split: option.splits)
  then show ?case using Cons.IH[OF rest] p by simp
qed

lemma shaped_Cons:
  "shaped (p # m) \<Longrightarrow>
   shaped m \<and> list_all is_dict (dependencies_of (snd p)) \<and>
   check_dependencies keys (p # m) =
     (case missing_dependency keys (dependencies_of (snd p)) of
        Some e \<Rightarrow> Some e
      | None \<Rightarrow> check_dependencies keys m)"
proof -
  assume sh: "shaped (p # m)"
  obtain name entry where p: "p = (name, entry)" by (cases p)
  from sh p obtain e where e: "entry = JObj e"
    by (cases entry) (auto simp: shaped_def)
  have m: "shaped m" using sh by (simp add: shaped_def)
  show ?thesis
  proof (cases "get e ''dependencies''")
    case (JList ds)
    then have ds: "dependencies_of entry = ds"
      by (auto simp: dependencies_of_def e get_def split: option.splits)
    have "list_all is_dict ds" using sh p e JList by (simp add: shaped_def)
    then show ?thesis using m p e JList ds by (cases ds) (auto simp: Let_def)
  qed (use sh m p e in \<open>auto simp: shaped_def dependencies_of_def get_def Let_def split: option.splits\<close>)
qed

lemma check_dependencies_Some:
  "shaped m \<Longrightarrow>
   \<not> list_all (\<lambda>(name, entry).
      list_all (\<lambda>d. dep_name d \<in> JStr ` set keys) (dependencies_of entry)) m \<Longrightarrow>
   \<exists>(name, entry) \<in> set m. \<exists>d \<in> set (dependencies_of entry).
      dep_name d \<notin> JStr ` set keys \<and>
      check_dependencies keys m = Some (UnresolvedDependency (dep_name d))"
proof (induction m)
  case Nil
  then show ?case by simp
next
  case (Cons p m)
  note step = shaped_Cons[OF Cons.prems(1), of keys]
  show ?case
  proof (cases "list_all (\<lambda>d. dep_name d \<in> JStr ` set keys) (dependencies_of (snd p))")
    case True
    then have "missing_dependency keys (dependencies_of (snd p)) = None"
      using step missing_dependency_closed by blast
    moreover have "\<not> list_all (\<lambda>(name, entry).
          list_all (\<lambda>d. dep_name d \<in> JStr ` set keys) (dependencies_of entry)) m"
      using Cons.prems(2) True by (cases p) simp
    ultimately show ?thesis using Cons.IH step by auto
  next
    case False
    then obtain d where "d \<in> set (dependencies_of (snd p))" "dep_name d \<notin> JStr ` set keys"
        "missing_dependency keys (dependencies_of (snd p)) = Some (UnresolvedDependency (dep_name d))"
      using missing_dependency_Some step by blast
    then show ?thesis using step by (cases p) auto
  qed
qed

lemma check_dependencies_closed:
  "shaped m \<Longrightarrow>
   list_all (\<lambda>(name, entry).
      list_all (\<lambda>d. dep_name d \<in> JStr ` set keys) (dependencies_of entry)) m \<Longrightarrow>
   check_dependencies keys m = None"
proof (induction m)
  case Nil
  then show ?case by simp
next
  case (Cons p m)
  note step = shaped_Cons[OF Cons.prems(1), of keys]
  have "missing_dependency keys (dependencies_of (snd p)) = None"
    using step Cons.prems(2) missing_dependency_closed by (cases p) auto
  then show ?case using step Cons by (cases p) auto
qed

text \<open>
  C5. After all sources are merged into the manifest \<open>m\<close>, \<^verbatim>\<open>create_resource_json\<close>
  returns a manifest only if every dependency of every entry names a key of \<open>m\<close>, and
  then it returns \<open>m\<close>. If some dependency names no key, it raises the unresolved
  dependency error, which carries the name of a dependency that is not a key, and
  returns nothing. If every dependency names a key, \<open>m\<close> is returned.
\<close>

theorem dependency_closure:
  assumes "walk_project c dirs [] bundle_name = (None, m)"
  shows "(\<forall>m'. create_resource_json c dirs bundle_name = Inr m' \<longrightarrow> m' = m \<and> closed m) \<and>
         (shaped m \<and> \<not> closed m \<longrightarrow>
            (\<exists>(name, entry) \<in> set m. \<exists>d \<in> set (dependencies_of entry).
               dep_name d \<notin> JStr ` set (map fst m) \<and>
               create_resource_json c dirs bundle_name =
                 Inl (UnresolvedDependency (dep_name d)))) \<and>
         (shaped m \<and> closed m \<longrightarrow> create_resource_json c dirs bundle_name = Inr m)"
proof -
  have 1: "m' = m \<and> closed m" if "create_resource_json c dirs bundle_name = Inr m'" for m'
  proof -
    have "check_dependencies (map fst m) m = None" "m' = m"
      using that assms by (auto simp: create_resource_json_def split: option.splits)
    then show ?thesis using check_dependencies_None[of "map fst m" m] by (simp add: closed_def)
  qed
  have 2: "\<exists>(name, entry) \<in> set m. \<exists>d \<in> set (dependencies_of entry).
               dep_name d \<notin> JStr ` set (map fst m) \<and>
               create_resource_json c dirs bundle_name =
                 Inl (UnresolvedDependency (dep_name d))"
    if "shaped m" "\<not> closed m"
    using check_dependencies_Some[OF that(1), of "map fst m"] that(2) assms
    by (fastforce simp: closed_def create_resource_json_def)
  have 3: "create_resource_json c dirs bundle_name = Inr m" if "shaped m" "closed m"
    using check_dependencies_closed[OF that(1), of "map fst m"] that(2) assms
    by (simp add: closed_def create_resource_json_def)
  show ?thesis using 1 2 3 by blast
qed

theorem dependency_closure_witness:
  "create_resource_json example_constants example_project ''b1'' =
     Inr [(''fn'', JObj [(''resource_type'', JStr ''sqs_queue''),
                         (''dependencies'', JList [JObj [(''resource_name'', JStr ''q'')]])]),
          (''q'', JObj [(''resource_type'', JStr ''sqs_queue'')])] \<and>
   create_resource_json example_constants [hd example_project] ''b1'' =
     Inl (UnresolvedDependency (JStr ''q''))"
proof -
  let ?fn = "(''fn'', JObj [(''resource_type'', JStr ''sqs_queue''),
                         (''dependencies'', JList [JObj [(''resource_name'', JStr ''q'')]])])"
  let ?q = "(''q'', JObj [(''resource_type'', JStr ''sqs_queue'')])"
  have w1: "walk_project example_constants example_project [] ''b1'' = (None, [?fn, ?q])"
    by (simp add: example_project_def example_constants_def store_resource_def
        populate_s3_path_def check_duplicated_resources_def get_def)
  have w2: "walk_project example_constants [hd example_project] [] ''b1'' = (None, [?fn])"
    by (simp add: example_project_def example_constants_def store_resource_def
        populate_s3_path_def check_duplicated_resources_def get_def)
  have s1: "shaped [?fn, ?q] \<and> closed [?fn, ?q]"
    by (simp add: shaped_def closed_def get_def is_dict_def dependencies_of_def dep_name_def)
  have s2: "shaped [?fn] \<and> \<not> closed [?fn]"
    by (simp add: shaped_def closed_def get_def is_dict_def dependencies_of_def dep_name_def)
  have r1: "create_resource_json example_constants example_project ''b1'' = Inr [?fn, ?q]"
    using dependency_closure[OF w1] s1 by blast
  have "\<exists>(name, entry) \<in> set [?fn]. \<exists>d \<in> set (dependencies_of entry).
          dep_name d \<notin> JStr ` set (map fst [?fn]) \<and>
          create_resource_json example_constants [hd example_project] ''b1'' =
            Inl (UnresolvedDependency (dep_name d))"
    using dependency_closure[OF w2] s2 by blast
  then have r2: "create_resource_json example_constants [hd example_project] ''b1'' =
      Inl (UnresolvedDependency (JStr ''q''))"
    by (simp add: dependencies_of_def dep_name_def)
  show ?thesis using r1 r2 by simp
qed

section \<open>Resolving the manifest: properties\<close>

lemma typed_entry_dict: "typed_entry e \<Longrightarrow> is_dict e"
  by (cases e) (auto simp: typed_entry_def is_dict_def)

lemma collect_resolved_names_typed:
  "list_all (\<lambda>(name, entry). typed_entry entry) m \<Longrightarrow>
   collect_resolved_names c cfg h m =
     Inr (map (\<lambda>(name, entry). (name, resolve_resource_name cfg h name))
            (filter (renamed c cfg h) m))"
proof (induction m)
  case Nil
  then show ?case by simp
next
  case (Cons p m)
  obtain name entry where p: "p = (name, entry)" by (cases p)
  obtain t where t: "getitem entry ''resource_type'' = Inr t"
    using Cons.prems p by (auto simp: typed_entry_def split: sum.splits)
  have "collect_resolved_names c cfg h m =
     Inr (map (\<lambda>(name, entry). (name, resolve_resource_name cfg h name))
            (filter (renamed c cfg h) m))"
    using Cons by simp
  moreover have "renamed c cfg h (name, entry) =
      (t \<in> JStr ` set (GLOBAL_AWS_SERVICES c) \<and> name \<noteq> resolve_resource_name cfg h name)"
    using t by (simp add: renamed_def eligible_def)
  ultimately show ?case using t p by simp
qed

lemma setitem_append: "k \<notin> fst ` set d \<Longrightarrow> setitem d k v = d @ [(k, v)]"
  by (induction d) auto

lemma resolve_dict_value:
  "is_dict e \<Longrightarrow>
   (case e of
      JStr s \<Rightarrow> f s
    | _ \<Rightarrow> resolve_names_in_meta e old new) = resolve_names_in_meta e old new"
  by (cases e) (auto simp: is_dict_def)

lemma resolve_manifest:
  "list_all (\<lambda>(k, e). is_dict e) m \<Longrightarrow>
   items_of (resolve_names_in_meta (JObj m) old new) =
     map (\<lambda>(k, e). (k, resolve_names_in_meta e old new)) m"
  by (auto simp: items_of_def list_all_iff is_dict_def split: json.splits)

lemma is_dict_resolve: "is_dict e \<Longrightarrow> is_dict (resolve_names_in_meta e old new)"
  by (cases e) (auto simp: is_dict_def)

lemma rewrite_names_Cons:
  "rewrite_names ((cur, new) # names) e = rewrite_names names (resolve_names_in_meta e cur new)"
  by (simp add: rewrite_names_def)

lemma map_of_map_value:
  "map_of (map (\<lambda>(k, v). (k, f v)) m) k = map_option f (map_of m k)"
  by (induction m) auto

lemma delitem_keys: "fst ` set (delitem m k) = fst ` set m - {k}"
  by (auto simp: delitem_def)

lemma map_of_delitem: "k' \<noteq> k \<Longrightarrow> map_of (delitem m k) k' = map_of m k'"
  by (induction m) (auto simp: delitem_def)

lemma rename_resources_result:
  assumes "distinct (map fst m)" "distinct (map fst names)" "distinct (map snd names)"
    and "fst ` set names \<subseteq> fst ` set m" "snd ` set names \<inter> fst ` set m = {}"
    and "list_all (\<lambda>(k, e). is_dict e) m"
  shows "rename_resources names m =
     Inr (map (\<lambda>(k, e). (k, rewrite_names names e)) (filter (\<lambda>(k, e). k \<notin> fst ` set names) m) @
          map (\<lambda>(cur, new). (new, rewrite_names names (the (map_of m cur)))) names)"
  using assms
proof (induction names arbitrary: m)
  case Nil
  have "map (\<lambda>(k, e). (k, rewrite_names [] e)) m = m"
    by (induction m) (auto simp: rewrite_names_def)
  then show ?case by simp
next
  case (Cons p names)
  obtain cur new where p: "p = (cur, new)" by (cases p)
  let ?f = "\<lambda>(k, v). (k, resolve_names_in_meta v cur new)"
  have cur_in: "cur \<in> fst ` set m" using Cons.prems(4) p by auto
  then obtain e where e: "map_of m cur = Some e"
    by (metis domD dom_map_of_conv_image_fst)
  then have e_in: "(cur, e) \<in> set m" by (simp add: map_of_SomeD)
  have new_notin: "new \<notin> fst ` set m" using Cons.prems(5) p by auto
  define m0 where "m0 = delitem m cur"
  define m1 where "m1 = map ?f (m0 @ [(new, e)])"
  have keys0: "fst ` set m0 = fst ` set m - {cur}" by (simp add: m0_def delitem_keys)
  have set0: "setitem m0 new e = m0 @ [(new, e)]"
    using new_notin keys0 by (intro setitem_append) auto
  have dicts0: "list_all (\<lambda>(k, e). is_dict e) (m0 @ [(new, e)])"
    using Cons.prems(6) e_in by (auto simp: m0_def delitem_def list_all_iff)
  have step: "rename_resources (p # names) m = rename_resources names m1"
    using e p set0 resolve_manifest[OF dicts0] by (simp add: m0_def[symmetric] m1_def)
  have mf1: "map fst m1 = map fst m0 @ [new]"
    by (simp add: m1_def case_prod_unfold comp_def)
  have d1: "distinct (map fst m1)"
  proof -
    have "distinct (map fst m0)"
      using Cons.prems(1) by (simp add: m0_def delitem_def distinct_map_filter)
    then show ?thesis using new_notin keys0 mf1 by auto
  qed
  have "set (map fst m1) = set (map fst m0) \<union> {new}" unfolding mf1 by simp
  then have keys1: "fst ` set m1 = fst ` set m - {cur} \<union> {new}"
    using keys0 by simp
  have names_cur: "cur \<notin> fst ` set names" using Cons.prems(2) p by auto
  have names_new: "new \<notin> snd ` set names" using Cons.prems(3) p by auto
  have sub1: "fst ` set names \<subseteq> fst ` set m1"
    using Cons.prems(4) names_cur keys1 by auto
  have dis1: "snd ` set names \<inter> fst ` set m1 = {}"
    using Cons.prems(5) names_new keys1 by auto
  have dicts1: "list_all (\<lambda>(k, e). is_dict e) m1"
    using dicts0 by (auto simp: m1_def list_all_iff is_dict_resolve)
  have IH: "rename_resources names m1 =
     Inr (map (\<lambda>(k, e). (k, rewrite_names names e)) (filter (\<lambda>(k, e). k \<notin> fst ` set names) m1) @
          map (\<lambda>(cur, new). (new, rewrite_names names (the (map_of m1 cur)))) names)"
    using Cons.IH[of m1] d1 Cons.prems(2,3) sub1 dis1 dicts1 by simp
  have new_not_cur: "new \<notin> fst ` set names"
    using Cons.prems(4) new_notin by auto
  have f1: "filter (\<lambda>(k, e). k \<notin> fst ` set names) m1 =
      map ?f (filter (\<lambda>(k, e). k \<notin> fst ` set (p # names)) m) @ [(new, resolve_names_in_meta e cur new)]"
  proof -
    have "filter (\<lambda>(k, e). k \<notin> fst ` set names) (map ?f m0) =
          map ?f (filter (\<lambda>(k, e). k \<notin> fst ` set names) m0)"
      by (induction m0) auto
    moreover have "filter (\<lambda>(k, e). k \<notin> fst ` set names) m0 =
          filter (\<lambda>(k, e). k \<notin> fst ` set (p # names)) m"
      unfolding m0_def delitem_def p by (induction m) auto
    ultimately show ?thesis using new_not_cur by (simp add: m1_def)
  qed
  have part1: "map (\<lambda>(k, e). (k, rewrite_names names e)) (filter (\<lambda>(k, e). k \<notin> fst ` set names) m1) =
      map (\<lambda>(k, e). (k, rewrite_names (p # names) e)) (filter (\<lambda>(k, e). k \<notin> fst ` set (p # names)) m) @
      [(new, rewrite_names (p # names) e)]"
    unfolding f1 p by (simp add: rewrite_names_Cons case_prod_unfold comp_def)
  have part2: "map (\<lambda>(c, n). (n, rewrite_names names (the (map_of m1 c)))) names =
      map (\<lambda>(c, n). (n, rewrite_names (p # names) (the (map_of m c)))) names"
  proof (rule map_cong[OF refl])
    fix x assume x: "x \<in> set names"
    obtain c n where cn: "x = (c, n)" by (cases x)
    have c_in: "c \<in> fst ` set m" using Cons.prems(4) x cn by force
    have c_ne: "c \<noteq> cur" using names_cur x cn by force
    have c_ne_new: "c \<noteq> new" using c_in new_notin by auto
    obtain v where v: "map_of m c = Some v"
      using c_in by (metis domD dom_map_of_conv_image_fst)
    have "map_of m1 c = map_option (\<lambda>v. resolve_names_in_meta v cur new) (map_of (m0 @ [(new, e)]) c)"
      unfolding m1_def by (rule map_of_map_value)
    also have "map_of (m0 @ [(new, e)]) c = map_of m c"
      using c_ne c_ne_new by (auto simp: m0_def map_of_delitem map_add_def split: option.splits)
    finally have "the (map_of m1 c) = resolve_names_in_meta v cur new" using v by simp
    then show "(case x of (c, n) \<Rightarrow> (n, rewrite_names names (the (map_of m1 c)))) =
          (case x of (c, n) \<Rightarrow> (n, rewrite_names (p # names) (the (map_of m c))))"
      using cn v p by (simp add: rewrite_names_Cons)
  qed
  show ?case
    unfolding step IH part1 part2 using p e by simp
qed

lemma resolve_resource_name_parts:
  "resolve_resource_name cfg h name =
     rule_part h (resources_prefix cfg) @ name @ rule_part h (resources_suffix cfg)"
  by (simp add: resolve_resource_name_def resolve_prefix_name_def resolve_suffix_name_def
      rule_part_def split: option.splits)

lemma resolve_resource_name_inj:
  "resolve_resource_name cfg h a = resolve_resource_name cfg h b \<Longrightarrow> a = b"
  by (simp add: resolve_resource_name_parts)

lemma renamed_keys:
  assumes "distinct (map fst m)" "(k, e) \<in> set m"
  shows "k \<in> fst ` set (filter (renamed c cfg h) m) \<longleftrightarrow> renamed c cfg h (k, e)"
proof
  assume "k \<in> fst ` set (filter (renamed c cfg h) m)"
  then obtain e' where "(k, e') \<in> set m" "renamed c cfg h (k, e')" by auto
  moreover have "e' = e" using assms calculation(1) by (meson eq_key_imp_eq_value)
  ultimately show "renamed c cfg h (k, e)" by simp
next
  assume "renamed c cfg h (k, e)"
  then show "k \<in> fst ` set (filter (renamed c cfg h) m)" using assms(2) by force
qed

lemma example_resolved:
  "resolve_resource_name example_config example_collaborators name = ''dev-'' @ name"
  by (simp add: example_config_def example_collaborators_def resolve_resource_name_def
      resolve_prefix_name_def resolve_suffix_name_def)

lemma example_renamed:
  "renamed example_constants example_config example_collaborators (name, entry) =
     (getitem entry ''resource_type'' = Inr (JStr ''sqs_queue''))"
  by (auto simp: renamed_def eligible_def example_constants_def example_config_def
      example_collaborators_def resolve_resource_name_def resolve_prefix_name_def
      resolve_suffix_name_def split: sum.splits)

text \<open>
  C2, as stated, fails when a resolved name is already a key of the manifest: the
  loop has no guard for it. With the prefix \<^verbatim>\<open>dev-\<close> and the eligible entries \<^verbatim>\<open>a\<close> and
  \<^verbatim>\<open>dev-a\<close>, moving \<^verbatim>\<open>a\<close> replaces the entry of \<^verbatim>\<open>dev-a\<close>, and the renaming of
  \<^verbatim>\<open>dev-a\<close> then moves the entry that came from \<^verbatim>\<open>a\<close> once more: one entry is left,
  under \<^verbatim>\<open>dev-dev-a\<close>.
\<close>

theorem renaming_clobbers_counterexample:
  "resolve_meta example_constants example_config example_collaborators
     [(''a'', JObj [(''resource_type'', JStr ''sqs_queue'')]),
      (''dev-a'', JObj [(''resource_type'', JStr ''sqs_queue''), (''fifo'', JBool True)])] =
   Inr [(''dev-dev-a'', JObj [(''resource_type'', JStr ''sqs_queue'')])]"
  by (simp add: resolve_meta_def example_constants_def example_config_def
      example_collaborators_def resolve_resource_name_def resolve_prefix_name_def
      resolve_suffix_name_def delitem_def items_of_def startswith_def)

text \<open>
  C2, amended. The resolved name of a resource is the resolved prefix, the name and the
  resolved suffix, each rule contributing only when it is configured. If every entry
  of the manifest (after the alias pass) is typed and no resolved name of a renamed
  entry is already a key, then \<^verbatim>\<open>resolve_meta\<close> returns the entries that are not renamed
  under their keys, in their order, followed by the renamed entries under their
  resolved names; each entry is the original one with the old names rewritten. With
  an empty table of eligible types the manifest is returned as the alias pass left it.
\<close>

theorem renaming_pass:
  assumes "m = resolve_aliases h (aliases cfg) overall_meta"
    and "distinct (map fst m)"
    and "list_all (\<lambda>(name, entry). typed_entry entry) m"
    and "\<forall>(name, entry) \<in> set m.
           renamed c cfg h (name, entry) \<longrightarrow> resolve_resource_name cfg h name \<notin> fst ` set m"
    and "ns = map (\<lambda>(name, entry). (name, resolve_resource_name cfg h name))
                (filter (renamed c cfg h) m)"
  shows "resolve_resource_name cfg h name =
           rule_part h (resources_prefix cfg) @ name @ rule_part h (resources_suffix cfg) \<and>
         resolve_meta c cfg h overall_meta =
           Inr (map (\<lambda>(name, entry). (name, rewrite_names ns entry))
                  (filter (\<lambda>p. \<not> renamed c cfg h p) m) @
                map (\<lambda>(name, entry). (resolve_resource_name cfg h name, rewrite_names ns entry))
                  (filter (renamed c cfg h) m)) \<and>
         (GLOBAL_AWS_SERVICES c = [] \<longrightarrow> resolve_meta c cfg h overall_meta = Inr m)"
proof -
  let ?R = "filter (renamed c cfg h) m"
  have fst_ns: "map fst ns = map fst ?R"
    unfolding assms(5) by (simp add: case_prod_unfold comp_def)
  have snd_ns: "map snd ns = map (resolve_resource_name cfg h) (map fst ?R)"
    unfolding assms(5) by (simp add: case_prod_unfold comp_def)
  have d_fst: "distinct (map fst ns)"
    unfolding fst_ns using assms(2) by (simp add: distinct_map_filter)
  have "inj_on (resolve_resource_name cfg h) (set (map fst ?R))"
    by (rule inj_onI) (rule resolve_resource_name_inj)
  then have d_snd: "distinct (map snd ns)"
    unfolding snd_ns
    using d_fst[unfolded fst_ns] distinct_map[of "resolve_resource_name cfg h" "map fst ?R"]
    by blast
  have sub: "fst ` set ns \<subseteq> fst ` set m"
  proof -
    have "set (map fst ns) \<subseteq> set (map fst m)" unfolding fst_ns by auto
    then show ?thesis by simp
  qed
  have dis: "snd ` set ns \<inter> fst ` set m = {}"
  proof -
    have "n \<notin> fst ` set m" if "n \<in> set (map snd ns)" for n
    proof -
      from that obtain k e where "(k, e) \<in> set m" "renamed c cfg h (k, e)"
        "n = resolve_resource_name cfg h k"
        unfolding snd_ns by auto
      then show ?thesis using assms(4) by fastforce
    qed
    then show ?thesis by auto
  qed
  have dicts: "list_all (\<lambda>(k, e). is_dict e) m"
    using assms(3) by (auto simp: list_all_iff typed_entry_dict)
  have names: "collect_resolved_names c cfg h m = Inr ns"
    unfolding assms(5) by (rule collect_resolved_names_typed[OF assms(3)])
  have loop: "rename_resources ns m =
     Inr (map (\<lambda>(k, e). (k, rewrite_names ns e)) (filter (\<lambda>(k, e). k \<notin> fst ` set ns) m) @
          map (\<lambda>(cur, new). (new, rewrite_names ns (the (map_of m cur)))) ns)"
    by (rule rename_resources_result[OF assms(2) d_fst d_snd sub dis dicts])
  have set_ns: "fst ` set ns = fst ` set ?R"
  proof -
    have "set (map fst ns) = set (map fst ?R)" unfolding fst_ns ..
    then show ?thesis by simp
  qed
  have p1: "filter (\<lambda>(k, e). k \<notin> fst ` set ns) m = filter (\<lambda>p. \<not> renamed c cfg h p) m"
  proof (rule filter_cong[OF refl])
    fix x assume x: "x \<in> set m"
    obtain k e where ke: "x = (k, e)" by (cases x)
    show "(case x of (k, e) \<Rightarrow> k \<notin> fst ` set ns) = (\<not> renamed c cfg h x)"
      using renamed_keys[OF assms(2), of k e c cfg h] x ke set_ns by simp
  qed
  have p2: "map (\<lambda>(cur, new). (new, rewrite_names ns (the (map_of m cur)))) ns =
      map (\<lambda>(name, entry). (resolve_resource_name cfg h name, rewrite_names ns entry)) ?R"
  proof -
    have "map (\<lambda>(cur, new). (new, rewrite_names ns (the (map_of m cur))))
            (map (\<lambda>(name, entry). (name, resolve_resource_name cfg h name)) ?R) =
          map (\<lambda>(name, entry). (resolve_resource_name cfg h name, rewrite_names ns entry)) ?R"
      unfolding map_map
    proof (rule map_cong[OF refl])
      fix x assume x: "x \<in> set ?R"
      obtain k e where ke: "x = (k, e)" by (cases x)
      have "map_of m k = Some e" using x ke assms(2) by simp
      then show "((\<lambda>(cur, new). (new, rewrite_names ns (the (map_of m cur)))) \<circ>
            (\<lambda>(name, entry). (name, resolve_resource_name cfg h name))) x =
          (case x of (name, entry) \<Rightarrow> (resolve_resource_name cfg h name, rewrite_names ns entry))"
        using ke by simp
    qed
    then show ?thesis using assms(5) by simp
  qed
  have main: "resolve_meta c cfg h overall_meta =
           Inr (map (\<lambda>(name, entry). (name, rewrite_names ns entry))
                  (filter (\<lambda>p. \<not> renamed c cfg h p) m) @
                map (\<lambda>(name, entry). (resolve_resource_name cfg h name, rewrite_names ns entry)) ?R)"
    using names loop p1 p2 by (simp add: resolve_meta_def assms(1)[symmetric] Let_def)
  have empty: "resolve_meta c cfg h overall_meta = Inr m" if "GLOBAL_AWS_SERVICES c = []"
  proof -
    have "\<not> eligible c e" for e
      using that by (cases "getitem e ''resource_type''") (simp_all add: eligible_def)
    then have "?R = []" by (simp add: filter_empty_conv renamed_def)
    then have "ns = []" using assms(5) by simp
    then show ?thesis using names by (simp add: resolve_meta_def assms(1)[symmetric] Let_def)
  qed
  show ?thesis using resolve_resource_name_parts main empty by blast
qed

theorem renaming_pass_witness:
  "resolve_meta example_constants example_config example_collaborators example_manifest =
     Inr [(''fn'', JObj [(''resource_type'', JStr ''lambda''), (''target'', JStr ''dev-queueA'')]),
          (''dev-queueA'', JObj [(''resource_type'', JStr ''sqs_queue'')])] \<and>
   resolve_meta (example_constants\<lparr>GLOBAL_AWS_SERVICES := []\<rparr>) example_config
     example_collaborators example_manifest = Inr example_manifest"
proof -
  let ?ns = "[(''queueA'', ''dev-queueA'')]"
  have a: "example_manifest =
      resolve_aliases example_collaborators (aliases example_config) example_manifest"
    by (simp add: example_config_def)
  have d: "distinct (map fst example_manifest)"
    by (simp add: example_manifest_def)
  have t: "list_all (\<lambda>(name, entry). typed_entry entry) example_manifest"
    by (simp add: example_manifest_def typed_entry_def)
  have n: "\<forall>(name, entry) \<in> set example_manifest.
      renamed example_constants example_config example_collaborators (name, entry) \<longrightarrow>
      resolve_resource_name example_config example_collaborators name
        \<notin> fst ` set example_manifest"
    by (simp add: example_manifest_def example_renamed example_resolved)
  have ns: "?ns = map (\<lambda>(name, entry). (name, resolve_resource_name example_config example_collaborators name))
      (filter (renamed example_constants example_config example_collaborators) example_manifest)"
    by (simp add: example_manifest_def example_renamed example_resolved)
  have r1: "resolve_meta example_constants example_config example_collaborators example_manifest =
      Inr (map (\<lambda>(name, entry). (name, rewrite_names ?ns entry))
             (filter (\<lambda>p. \<not> renamed example_constants example_config example_collaborators p)
                example_manifest) @
           map (\<lambda>(name, entry).
                  (resolve_resource_name example_config example_collaborators name,
                   rewrite_names ?ns entry))
             (filter (renamed example_constants example_config example_collaborators)
                example_manifest))"
    using renaming_pass[OF a d t n ns, of "[]"] by blast
  have n0: "\<forall>(name, entry) \<in> set example_manifest.
      renamed (example_constants\<lparr>GLOBAL_AWS_SERVICES := []\<rparr>) example_config
        example_collaborators (name, entry) \<longrightarrow>
      resolve_resource_name example_config example_collaborators name
        \<notin> fst ` set example_manifest"
    by (simp add: example_manifest_def renamed_def eligible_def)
  have g: "GLOBAL_AWS_SERVICES (example_constants\<lparr>GLOBAL_AWS_SERVICES := []\<rparr>) = []"
    by simp
  have r2: "resolve_meta (example_constants\<lparr>GLOBAL_AWS_SERVICES := []\<rparr>) example_config
      example_collaborators example_manifest = Inr example_manifest"
    using renaming_pass[OF a d t n0 refl, of "[]"] g by blast
  show ?thesis
    unfolding r1 r2
    by (simp add: example_manifest_def example_renamed example_resolved rewrite_names_def
        startswith_def)
qed

section \<open>Rewriting names: what the list loop does\<close>

text \<open>
  C3. The rewriting is meant to reach every occurrence of the old name, and on this
  manifest it does not: the list branch deletes the matching string from the list it
  is iterating over, so the loop's position moves past the element that followed the
  match. Here that element is a dict, which is never visited and keeps the old name
  \<^verbatim>\<open>queueA\<close> after the queue was renamed to \<^verbatim>\<open>dev-queueA\<close>.
\<close>

theorem rename_misses_element_after_match:
  "resolve_meta example_constants example_config example_collaborators example_subscriptions =
     Inr [(''fn'', JObj [(''resource_type'', JStr ''lambda''),
                         (''event_sources'',
                            JList [JObj [(''target_queue'', JStr ''queueA'')],
                                   JStr ''dev-queueA''])]),
          (''dev-queueA'', JObj [(''resource_type'', JStr ''sqs_queue'')])]"
  by (simp add: resolve_meta_def example_constants_def example_config_def
      example_collaborators_def example_subscriptions_def resolve_resource_name_def
      resolve_prefix_name_def resolve_suffix_name_def delitem_def items_of_def startswith_def
      Let_def)

text \<open>
  C8. A single element equal to the old name is removed and the new name is appended,
  as the claim says: the first equation below. When two elements equal to the old name
  stand next to each other, the second is skipped by the same loop and stays in the
  list: the second equation.
\<close>

theorem list_keeps_adjacent_match:
  "resolve_names_in_meta (JList [JStr ''x'', JStr ''queueA'', JStr ''y'']) ''queueA'' ''dev-queueA'' =
     JList [JStr ''x'', JStr ''y'', JStr ''dev-queueA''] \<and>
   resolve_names_in_meta (JList [JStr ''queueA'', JStr ''queueA'']) ''queueA'' ''dev-queueA'' =
     JList [JStr ''queueA'', JStr ''dev-queueA'']"
  by (simp add: Let_def)

end
